theory Spec2Isabelle
  imports Main "HOL-Library.Finite_Map"
begin

section \<open>Data model of the graph engine\<close>

text \<open>
  The engine keeps a program as a graph of nodes joined by edges between named slots.
  JavaScript objects used as dictionaries (\<open>NodesObject\<close>, \<open>NodeEdgesObject\<close>, the attribute
  bags) are finite maps, so equality of two values is deep equality of their content and
  does not depend on the order in which keys were inserted. A value that may be
  \<open>undefined\<close> is an \<open>option\<close>. Numbers (positions, numeric attributes) are integers; no
  operation of the engine computes with them.
\<close>

datatype jsval = JStr string | JNum int | JBool bool

text \<open>The fields \<open>a\<close> and \<open>t\<close> are declared \<open>any\<close>: here an object, or \<open>undefined\<close>. The code
  only ever reads \<open>a.Name\<close>.\<close>

type_synonym any = "(string, jsval) fmap"

datatype Node = Node
  (node_id: string)
  (node_a: "any option")
  (node_t: "any option")
  (node_c: string)
  (node_edges: "(string, Node) fmap option")
  (node_x: "int option")
  (node_y: "int option")
  (node_out: "string option")

type_synonym NodesObject = "(string, Node) fmap"

text \<open>
  A raw node is a plain object with the strings \<open>id\<close> and \<open>c\<close>, the component type, on which
  the engine calls string operations. Each of its other properties, \<open>a\<close>, \<open>t\<close>, \<open>edges\<close>, \<open>x\<close>,
  \<open>y\<close> and \<open>out\<close>, may be left out (\<open>x\<close>, \<open>y\<close> and \<open>out\<close> are optional in the interface
  \<open>INode\<close>; the constructor destructures the others without a check, too). A property that
  is left out is \<open>Absent\<close>; one that is there holds a value or \<open>undefined\<close>. The deep
  equality of lodash tells the two apart (\<open>isEqual({x: undefined}, {})\<close> is false), and so
  does equality of the modelled values. An instance of the class \<open>Node\<close> always has all
  eight properties.
\<close>

datatype 'a optional = Absent | Present 'a

datatype INode = INode
  (inode_id: string)
  (inode_a: "any option optional")
  (inode_t: "any option optional")
  (inode_edges: "NodesObject option optional")
  (inode_c: string)
  (inode_x: "int option optional")
  (inode_y: "int option optional")
  (inode_out: "string option optional")

text \<open>
  Reading a property of a plain object, \<open>object[key]\<close>: the value stored under the key; if
  there is none, the member that every object inherits from \<open>Object.prototype\<close> under that
  name, should the key be such a name; otherwise \<open>undefined\<close>. The inherited members are
  functions, but for \<open>__proto__\<close>, which gives \<open>Object.prototype\<close> itself; none of them has
  a property \<open>id\<close> or \<open>reduce\<close>, and all of them are truthy.
\<close>

definition inheritedNames :: "string list" where
  "inheritedNames =
     [''constructor'', ''toString'', ''toLocaleString'', ''valueOf'', ''hasOwnProperty'',
      ''isPrototypeOf'', ''propertyIsEnumerable'', ''__proto__'', ''__defineGetter__'',
      ''__defineSetter__'', ''__lookupGetter__'', ''__lookupSetter__'']"

datatype 'a lookup = Own 'a | Inherited string | Undefined

definition propertyRead :: "(string, 'a) fmap \<Rightarrow> string \<Rightarrow> 'a lookup" where
  "propertyRead object key =
     (case fmlookup object key of
        Some v \<Rightarrow> Own v
      | None \<Rightarrow> if key \<in> set inheritedNames then Inherited key else Undefined)"

type_synonym RawEdge = "string \<times> string \<times> string \<times> string"

record EdgeObject =
  eo_in :: string
  eo_outputNodeId :: string
  eo_out :: string

type_synonym NodeEdgesObject = "(string, EdgeObject list) fmap"

record Edge =
  inputNodeId :: string
  inputNode :: "Node option"
  inputName :: string
  outputNodeId :: string
  outputNode :: "Node option"
  outputName :: string
  actions :: "string list"

record Comment =
  comment :: "string list"

type_synonym IComment = Comment

record RawGraph =
  raw_nodes :: "INode list"
  raw_edges :: "RawEdge list"
  raw_comments :: "IComment list"

record Graph =
  nodes :: "Node list"
  edges :: "Edge list"
  comments :: "Comment list"
  nodesObject :: NodesObject
  nodeEdgesObject :: NodeEdgesObject

datatype EdgeFilter = INPUT | OUTPUT

text \<open>
  The two things the engine throws: the \<open>Error\<close> of \<open>composeTree\<close>, whose message prints
  \<open>node.id\<close> and the ancestor ids, and a \<open>TypeError\<close>. An ancestor id can be \<open>undefined\<close>
  (the \<open>id\<close> of an inherited member).
\<close>

datatype error = CycleDetected "string option" "string option list" | TypeError

text \<open>
  What \<open>composeTree\<close> returns: \<open>clone(node)\<close> of lodash with \<open>edges\<close> and \<open>out\<close> assigned. For a
  \<open>Node\<close> the clone has its eight properties. For an inherited member (a function, or
  \<open>Object.prototype\<close>) the clone is the empty object \<open>{}\<close>, which then has just the two
  properties assigned to it.
\<close>

datatype Tree =
    Copy (tree_id: string) (tree_a: "any option") (tree_t: "any option") (tree_c: string)
         (tree_edges: "(string, Tree) fmap") (tree_x: "int option") (tree_y: "int option")
         (tree_out: "string option")
  | Bare (bare_edges: "(string, Tree) fmap") (bare_out: "string option")

subsection \<open>Node, Edge and Comment\<close>

text \<open>The template \<open>`${prefix || ""}${s}`\<close>: a missing or empty prefix leaves \<open>s\<close> as it is.\<close>

definition withPrefix :: "string option \<Rightarrow> string \<Rightarrow> string" where
  "withPrefix prefix s = (case prefix of None \<Rightarrow> s | Some p \<Rightarrow> p @ s)"

definition getNodesObject :: "Node list \<Rightarrow> NodesObject" where
  "getNodesObject ns = foldl (\<lambda>acc currentNode. fmupd (node_id currentNode) currentNode acc) fmempty ns"

text \<open>Destructuring \<open>{x}\<close> of an object without \<open>x\<close> gives \<open>undefined\<close>.\<close>

definition destructured :: "'a option optional \<Rightarrow> 'a option" where
  "destructured p = (case p of Absent \<Rightarrow> None | Present v \<Rightarrow> v)"

definition Node_constructor :: "INode \<Rightarrow> string option \<Rightarrow> Node" where
  "Node_constructor r prefix =
     Node (withPrefix prefix (inode_id r)) (destructured (inode_a r)) (destructured (inode_t r))
          (inode_c r) (destructured (inode_edges r)) (destructured (inode_x r))
          (destructured (inode_y r)) (destructured (inode_out r))"

text \<open>The getter \<open>rawNode\<close> writes all eight keys, whatever they hold.\<close>

definition rawNode :: "Node \<Rightarrow> INode" where
  "rawNode n =
     INode (node_id n) (Present (node_a n)) (Present (node_t n)) (Present (node_edges n))
           (node_c n) (Present (node_x n)) (Present (node_y n)) (Present (node_out n))"

definition Node_clone :: "Node \<Rightarrow> string option \<Rightarrow> Node" where
  "Node_clone n prefix = Node_constructor (rawNode n) prefix"

text \<open>
  \<open>reduce\<close> and \<open>forEach\<close> with a callback that may throw: the first exception ends the whole
  call.
\<close>

fun reduceThrowing :: "('b \<Rightarrow> 'a \<Rightarrow> error + 'b) \<Rightarrow> 'a list \<Rightarrow> 'b \<Rightarrow> error + 'b" where
  "reduceThrowing f [] acc = Inr acc"
| "reduceThrowing f (v # vs) acc =
     (case f acc v of Inl e \<Rightarrow> Inl e | Inr acc' \<Rightarrow> reduceThrowing f vs acc')"

text \<open>
  \<open>getNodeEdgesObject\<close> appends the descriptor of each edge to the array under the edge's
  consumer id: \<open>[...(acc[inputNodeId] || []), {...}]\<close>. When \<open>acc[inputNodeId]\<close> is an
  inherited member, the spread throws a \<open>TypeError\<close>, as a function or \<open>Object.prototype\<close>
  is not iterable.
\<close>

definition getNodeEdgesObject :: "Edge list \<Rightarrow> error + NodeEdgesObject" where
  "getNodeEdgesObject es =
     reduceThrowing
       (\<lambda>acc e.
          case propertyRead acc (inputNodeId e) of
            Inherited name \<Rightarrow> Inl TypeError
          | Own l \<Rightarrow>
              Inr (fmupd (inputNodeId e)
                     (l @ [\<lparr>eo_in = inputName e, eo_outputNodeId = outputNodeId e, eo_out = outputName e\<rparr>])
                     acc)
          | Undefined \<Rightarrow>
              Inr (fmupd (inputNodeId e)
                     ([] @ [\<lparr>eo_in = inputName e, eo_outputNodeId = outputNodeId e, eo_out = outputName e\<rparr>])
                     acc))
       es fmempty"

definition Edge_constructor :: "RawEdge \<Rightarrow> string option \<Rightarrow> Node option \<Rightarrow> Node option \<Rightarrow> Edge" where
  "Edge_constructor rawEdge prefix inNode outNode =
     (case rawEdge of (inId, inName, outId, outName) \<Rightarrow>
        \<lparr>inputNodeId = inId,
         inputNode = inNode,
         inputName = withPrefix prefix inName,
         outputNodeId = outId,
         outputNode = outNode,
         outputName = withPrefix prefix outName,
         actions = []\<rparr>)"

definition toEdgeObject :: "Edge \<Rightarrow> EdgeObject" where
  "toEdgeObject e = \<lparr>eo_in = inputName e, eo_outputNodeId = outputNodeId e, eo_out = outputName e\<rparr>"

definition rawEdge :: "Edge \<Rightarrow> RawEdge" where
  "rawEdge e = (inputNodeId e, inputName e, outputNodeId e, outputName e)"

definition Edge_clone :: "Edge \<Rightarrow> string option \<Rightarrow> Edge" where
  "Edge_clone e prefix = Edge_constructor (rawEdge e) prefix None None"

definition Comment_constructor :: "IComment \<Rightarrow> Comment" where
  "Comment_constructor r = \<lparr>comment = comment r\<rparr>"

definition rawComment :: "Comment \<Rightarrow> IComment" where
  "rawComment cm = \<lparr>comment = comment cm\<rparr>"

subsection \<open>Graph\<close>

text \<open>The constructor throws what \<open>getNodeEdgesObject\<close> throws.\<close>

definition Graph_constructor :: "RawGraph \<Rightarrow> string option \<Rightarrow> error + Graph" where
  "Graph_constructor raw prefix =
     (let ns = map (\<lambda>r. Node_constructor r prefix) (raw_nodes raw);
          es = map (\<lambda>r. Edge_constructor r prefix None None) (raw_edges raw);
          cs = map Comment_constructor (raw_comments raw);
          no = getNodesObject ns
      in case getNodeEdgesObject es of
           Inl e \<Rightarrow> Inl e
         | Inr neo \<Rightarrow>
             Inr \<lparr>nodes = ns, edges = es, comments = cs,
                  nodesObject = no, nodeEdgesObject = neo\<rparr>)"

definition rawGraph :: "Graph \<Rightarrow> RawGraph" where
  "rawGraph g =
     \<lparr>raw_nodes = map rawNode (nodes g),
      raw_edges = map rawEdge (edges g),
      raw_comments = map rawComment (comments g)\<rparr>"

text \<open>
  \<open>getNodesByIds\<close> reads the index; whatever \<open>nodesObject[nodeId]\<close> gives, a node, an
  inherited member or \<open>undefined\<close>, goes into the returned array.
\<close>

definition getNodesByIds :: "Graph \<Rightarrow> string list \<Rightarrow> Node lookup list" where
  "getNodesByIds g filterNodesIds = map (\<lambda>nodeId. propertyRead (nodesObject g) nodeId) filterNodesIds"

definition getEdges :: "Graph \<Rightarrow> Node \<Rightarrow> EdgeFilter option \<Rightarrow> Edge list" where
  "getEdges g node edgeFilterBy =
     filter (\<lambda>edge. case edgeFilterBy of
                Some INPUT \<Rightarrow> inputNodeId edge = node_id node
              | Some OUTPUT \<Rightarrow> outputNodeId edge = node_id node
              | None \<Rightarrow> inputNodeId edge = node_id node \<or> outputNodeId edge = node_id node)
            (edges g)"

definition getRootNodes :: "Graph \<Rightarrow> Node list" where
  "getRootNodes g =
     filter (\<lambda>node. list_all (\<lambda>e. inputNodeId e \<noteq> node_id node) (edges g)) (nodes g)"

definition addNodes :: "Graph \<Rightarrow> Node list \<Rightarrow> Graph" where
  "addNodes g ns = g\<lparr>nodes := nodes g @ ns\<rparr>"

definition addEdges :: "Graph \<Rightarrow> Edge list \<Rightarrow> Graph" where
  "addEdges g es = g\<lparr>edges := edges g @ es\<rparr>"

text \<open>\<open>Array.prototype.filter\<close> hands the callback the element and its index.\<close>

definition filterIndexed :: "('a \<Rightarrow> nat \<Rightarrow> bool) \<Rightarrow> 'a list \<Rightarrow> 'a list" where
  "filterIndexed p xs = map fst (filter (\<lambda>(v, i). p v i) (zip xs [0..<length xs]))"

definition deleteNodes :: "Graph \<Rightarrow> (Node \<Rightarrow> nat \<Rightarrow> bool) \<Rightarrow> Graph" where
  "deleteNodes g filterFn = g\<lparr>nodes := filterIndexed (\<lambda>node index. \<not> filterFn node index) (nodes g)\<rparr>"

definition deleteEdges :: "Graph \<Rightarrow> (Edge \<Rightarrow> nat \<Rightarrow> bool) \<Rightarrow> Graph" where
  "deleteEdges g filterFn = g\<lparr>edges := filterIndexed (\<lambda>edge index. \<not> filterFn edge index) (edges g)\<rparr>"

text \<open>\<open>isEqual\<close> of lodash is deep value equality: two raw graphs are equal when they have
  the same nodes, edges and comments in the same order, and two raw nodes when they have
  the same properties with equal values. That is equality of the modelled raw graphs.\<close>

definition equals :: "Graph \<Rightarrow> Graph \<Rightarrow> bool" where
  "equals this g = (rawGraph g = rawGraph this)"

definition equalsRaw :: "Graph \<Rightarrow> RawGraph \<Rightarrow> bool" where
  "equalsRaw this raw = (raw = rawGraph this)"

definition Graph_clone :: "Graph \<Rightarrow> string option \<Rightarrow> error + Graph" where
  "Graph_clone g prefix = Graph_constructor (rawGraph g) prefix"

subsection \<open>Tree composition\<close>

text \<open>\<open>union\<close> of lodash: the values of both arrays in order, every value once (the first
  occurrence stays).\<close>

definition union_lodash :: "'a list \<Rightarrow> 'a list \<Rightarrow> 'a list" where
  "union_lodash xs ys = rev (remdups (rev (xs @ ys)))"

text \<open>
  What \<open>composeTree\<close> reads of its argument \<open>node\<close>, which is whatever a lookup in
  \<open>nodesObject\<close> gave: \<open>node.id\<close> (for an inherited member \<open>undefined\<close>), the key that
  \<open>this.nodeEdgesObject[node.id]\<close> reads (\<open>undefined\<close> is turned into the string
  \<open>undefined\<close>), and the clone.
\<close>

definition idOf :: "Node lookup \<Rightarrow> string option" where
  "idOf node = (case node of Own n \<Rightarrow> Some (node_id n) | Inherited name \<Rightarrow> None | Undefined \<Rightarrow> None)"

definition keyOf :: "string option \<Rightarrow> string" where
  "keyOf nodeId = (case nodeId of Some k \<Rightarrow> k | None \<Rightarrow> ''undefined'')"

definition cloneWith :: "Node lookup \<Rightarrow> (string, Tree) fmap \<Rightarrow> string option \<Rightarrow> Tree" where
  "cloneWith node nodeEdges out =
     (case node of
        Own n \<Rightarrow> Copy (node_id n) (node_a n) (node_t n) (node_c n) nodeEdges
                    (node_x n) (node_y n) out
      | Inherited name \<Rightarrow> Bare nodeEdges out
      | Undefined \<Rightarrow> Bare nodeEdges out)"

text \<open>The ids the nodes in the index carry, and \<open>undefined\<close>; the recursion below is bounded
  by how many of them are not yet among the ancestors.\<close>

definition knownIds :: "Graph \<Rightarrow> string option set" where
  "knownIds g = insert None (Some ` node_id ` fmran' (nodesObject g))"

text \<open>
  \<open>composeTree\<close> walks the index. Reading \<open>node.id\<close> of \<open>undefined\<close> throws a \<open>TypeError\<close>
  (an edge whose producer id is not in \<open>nodesObject\<close> hands \<open>undefined\<close> to the recursive
  call). \<open>this.nodeEdgesObject[node.id] || []\<close> is the stored array, or an inherited member,
  on which \<open>reduce\<close> is not a function, or \<open>[]\<close>. The \<open>reduce\<close> over the incoming edge
  descriptors is the second function, \<open>composeEdges\<close>, with the accumulator \<open>acc\<close>.
\<close>

function composeTree :: "Graph \<Rightarrow> Node lookup \<Rightarrow> string option list \<Rightarrow> string option \<Rightarrow> error + Tree"
  and composeEdges :: "Graph \<Rightarrow> string option list \<Rightarrow> EdgeObject list \<Rightarrow> (string, Tree) fmap
                         \<Rightarrow> error + (string, Tree) fmap"
where
  "composeTree g node rawParentsIds out =
     (if node = Undefined then Inl TypeError
      else
        let parentsIds = rawParentsIds in
        if list_ex (\<lambda>pid. pid = idOf node) parentsIds
        then Inl (CycleDetected (idOf node) parentsIds)
        else
          let newParentsIds = union_lodash parentsIds [idOf node] in
          (case propertyRead (nodeEdgesObject g) (keyOf (idOf node)) of
             Inherited name \<Rightarrow> Inl TypeError
           | Own rawNodeEdges \<Rightarrow>
               (case composeEdges g newParentsIds rawNodeEdges fmempty of
                  Inl e \<Rightarrow> Inl e
                | Inr nodeEdges \<Rightarrow> Inr (cloneWith node nodeEdges out))
           | Undefined \<Rightarrow>
               (case composeEdges g newParentsIds [] fmempty of
                  Inl e \<Rightarrow> Inl e
                | Inr nodeEdges \<Rightarrow> Inr (cloneWith node nodeEdges out))))"
| "composeEdges g newParentsIds [] acc = Inr acc"
| "composeEdges g newParentsIds (edgeData # rest) acc =
     (case composeTree g (propertyRead (nodesObject g) (eo_outputNodeId edgeData))
             newParentsIds (Some (eo_out edgeData)) of
        Inl e \<Rightarrow> Inl e
      | Inr sub \<Rightarrow> composeEdges g newParentsIds rest (fmupd (eo_in edgeData) sub acc))"
  by pat_completeness auto

text \<open>
  Every recursive call either extends the ancestor list by an id that is not in the list
  yet, and that is \<open>undefined\<close> or the id one of the indexed nodes carries, or works on a
  shorter list of edge descriptors; so the recursion ends on every graph, cyclic or not.
\<close>

termination composeTree
proof (relation "(\<lambda>v. case v of
           Inl (g, node, ps, out) \<Rightarrow>
             (if node = Undefined \<or> idOf node \<in> set ps then 0
              else Suc (card (knownIds g - set ps - {idOf node})))
         | Inr (g, ps, es, acc) \<Rightarrow> card (knownIds g - set ps))
        <*mlex*> measure (\<lambda>v. case v of Inl _ \<Rightarrow> 0 | Inr (g, ps, es, acc) \<Rightarrow> Suc (length es))",
       goal_cases)
  case 1
  then show ?case by (simp add: wf_mlex)
next
  case (2 g node rawParentsIds out parentsIds newParentsIds rawNodeEdges)
  then have notin: "idOf node \<notin> set rawParentsIds"
    by (simp add: list_ex_iff)
  have "knownIds g - set newParentsIds = knownIds g - set rawParentsIds - {idOf node}"
    using 2 by (auto simp: union_lodash_def)
  with notin 2 show ?case by (simp add: mlex_prod_def)
next
  case (3 g node rawParentsIds out parentsIds newParentsIds)
  then have notin: "idOf node \<notin> set rawParentsIds"
    by (simp add: list_ex_iff)
  have "knownIds g - set newParentsIds = knownIds g - set rawParentsIds - {idOf node}"
    using 3 by (auto simp: union_lodash_def)
  with notin 3 show ?case by (simp add: mlex_prod_def)
next
  case (4 g newParentsIds edgeData rest acc)
  define child where "child = propertyRead (nodesObject g) (eo_outputNodeId edgeData)"
  have fin: "finite (knownIds g - set newParentsIds)"
    by (simp add: knownIds_def fmran'_alt_def)
  have mem: "idOf child \<in> knownIds g"
    unfolding knownIds_def child_def propertyRead_def idOf_def
    by (auto split: option.splits intro: fmran'I)
  show ?case
  proof (cases "child = Undefined \<or> idOf child \<in> set newParentsIds")
    case True
    then show ?thesis by (simp add: mlex_prod_def child_def [symmetric]) arith
  next
    case False
    with mem have "idOf child \<in> knownIds g - set newParentsIds" by simp
    with fin have "card (knownIds g - set newParentsIds)
        = Suc (card (knownIds g - set newParentsIds - {idOf child}))"
      by (rule card.remove)
    with False show ?thesis by (simp add: mlex_prod_def child_def [symmetric])
  qed
next
  case (5 g newParentsIds edgeData rest acc sub)
  then show ?case by (simp add: mlex_prod_def)
qed

definition composeTreeWithRootNode :: "Graph \<Rightarrow> string \<Rightarrow> error + Tree" where
  "composeTreeWithRootNode g rootNodeId =
     composeTree g (propertyRead (nodesObject g) rootNodeId) [] None"

text \<open>\<open>map\<close> with a callback that may throw, likewise.\<close>

fun mapThrowing :: "('a \<Rightarrow> error + 'b) \<Rightarrow> 'a list \<Rightarrow> error + 'b list" where
  "mapThrowing f [] = Inr []"
| "mapThrowing f (v # vs) =
     (case f v of
        Inl e \<Rightarrow> Inl e
      | Inr r \<Rightarrow> (case mapThrowing f vs of Inl e \<Rightarrow> Inl e | Inr rs \<Rightarrow> Inr (r # rs)))"

definition composeTrees :: "Graph \<Rightarrow> error + Tree list" where
  "composeTrees g =
     mapThrowing (\<lambda>rootNode. composeTreeWithRootNode g (node_id rootNode)) (getRootNodes g)"

subsection \<open>The engine\<close>

text \<open>The closures kept in \<open>userFunctionStorage\<close> (\<open>() => {}\<close>) are never called.\<close>

typedecl UserFunction

record SchemaComponent =
  isUserFunction :: bool

record Schema =
  components :: "(string \<times> SchemaComponent) list"

record VAX =
  graph :: "Graph option"
  schema :: Schema
  userFunctionStorage :: "(string, UserFunction) fmap"
  counter :: nat

text \<open>
  The field \<open>graph\<close> is declared without an initial value (\<open>graph!: Graph\<close>), so it is
  \<open>undefined\<close>, here \<open>None\<close>, until something assigns it. A method returns the instance
  next to its result, so that each assignment to a field shows in the model; \<open>saveGraph\<close>
  only reads.
\<close>

definition generateNextID :: "VAX \<Rightarrow> nat \<times> VAX" where
  "generateNextID this = (counter this, this\<lparr>counter := counter this + 1\<rparr>)"

definition loadGraph :: "VAX \<Rightarrow> RawGraph \<Rightarrow> error + (Graph \<times> VAX)" where
  "loadGraph this raw =
     (case graph this of
        None \<Rightarrow> Inl TypeError
      | Some current \<Rightarrow>
          if equalsRaw current raw then Inr (current, this)
          else (case Graph_constructor raw None of
                  Inl e \<Rightarrow> Inl e
                | Inr g \<Rightarrow> Inr (g, this)))"

definition VAX_constructor :: "Schema \<Rightarrow> error + VAX" where
  "VAX_constructor sch =
     (let this = \<lparr>graph = None, schema = sch, userFunctionStorage = fmempty, counter = 0\<rparr>
      in case loadGraph this \<lparr>raw_nodes = [], raw_edges = [], raw_comments = []\<rparr> of
           Inl e \<Rightarrow> Inl e
         | Inr (g, this') \<Rightarrow> Inr this')"

definition saveGraph :: "VAX \<Rightarrow> string list option \<Rightarrow> error + RawGraph" where
  "saveGraph this filterNodeIds =
     (case graph this of None \<Rightarrow> Inl TypeError | Some g \<Rightarrow> Inr (rawGraph g))"

text \<open>The template \<open>`uf_${n}_`\<close> prints the counter in decimal.\<close>

definition digitChar :: "nat \<Rightarrow> char" where
  "digitChar d = ''0123456789'' ! d"

function numberToString :: "nat \<Rightarrow> string" where
  "numberToString n =
     (if n < 10 then [digitChar n] else numberToString (n div 10) @ [digitChar (n mod 10)])"
  by pat_completeness auto
termination
  by (relation "measure id") auto

text \<open>
  \<open>getEdges\<close> returns the very \<open>Edge\<close> objects of the graph, and the loops of
  \<open>evaluateUserFunctionNode\<close> assign to their fields and push onto their \<open>actions\<close>. The
  model names such an object by its position in the \<open>edges\<close> array of its graph and writes
  the assignment as a list update; the host graph and its clone share no \<open>Edge\<close> object.
\<close>

definition indicesWhere :: "('a \<Rightarrow> bool) \<Rightarrow> 'a list \<Rightarrow> nat list" where
  "indicesWhere p xs = filter (\<lambda>i. p (xs ! i)) [0..<length xs]"

text \<open>
  \<open>find\<close> with a callback that may throw. The callbacks here are
  \<open>(n) => n.c === "UF_Input" && n.a.Name === inputName\<close> and its twin for outputs: on a node
  of the marker type whose \<open>a\<close> is \<open>undefined\<close>, reading \<open>n.a.Name\<close> throws a \<open>TypeError\<close>.
\<close>

fun findThrowing :: "('a \<Rightarrow> error + bool) \<Rightarrow> 'a list \<Rightarrow> error + 'a option" where
  "findThrowing p [] = Inr None"
| "findThrowing p (v # vs) =
     (case p v of
        Inl e \<Rightarrow> Inl e
      | Inr found \<Rightarrow> if found then Inr (Some v) else findThrowing p vs)"

definition isMarker :: "string \<Rightarrow> string \<Rightarrow> Node \<Rightarrow> error + bool" where
  "isMarker markerType name n =
     (if node_c n = markerType
      then (case node_a n of
              None \<Rightarrow> Inl TypeError
            | Some a \<Rightarrow> Inr (propertyRead a ''Name'' = Own (JStr name)))
      else Inr False)"

definition redirectInput :: "Graph \<times> Graph \<Rightarrow> nat \<Rightarrow> error + Graph \<times> Graph" where
  "redirectInput gc i =
     (case gc of (g, cl) \<Rightarrow>
        (case findThrowing (isMarker ''UF_Input'' (inputName (edges g ! i))) (nodes cl) of
           Inl e \<Rightarrow> Inl e
         | Inr None \<Rightarrow> Inr (g, cl)
         | Inr (Some marker) \<Rightarrow>
             Inr (foldl (\<lambda>(g', cl') j.
                      (g'\<lparr>edges := (edges g')[i := (edges g' ! i)
                             \<lparr>inputName := inputName (edges cl' ! j),
                              inputNodeId := inputNodeId (edges cl' ! j)\<rparr>]\<rparr>,
                       cl'\<lparr>edges := (edges cl')[j := (edges cl' ! j)
                             \<lparr>actions := actions (edges cl' ! j) @ [''toDelete'']\<rparr>]\<rparr>))
                   (g, cl)
                   (indicesWhere (\<lambda>e. inputNodeId e = node_id marker) (edges cl)))))"

definition redirectOutput :: "Graph \<times> Graph \<Rightarrow> nat \<Rightarrow> error + Graph \<times> Graph" where
  "redirectOutput gc i =
     (case gc of (g, cl) \<Rightarrow>
        (case findThrowing (isMarker ''UF_Output'' (outputName (edges g ! i))) (nodes cl) of
           Inl e \<Rightarrow> Inl e
         | Inr None \<Rightarrow> Inr (g, cl)
         | Inr (Some marker) \<Rightarrow>
             Inr (foldl (\<lambda>(g', cl') j.
                      (g'\<lparr>edges := (edges g')[i := (edges g' ! i)
                             \<lparr>outputName := outputName (edges cl' ! j),
                              outputNodeId := outputNodeId (edges cl' ! j)\<rparr>]\<rparr>,
                       cl'\<lparr>edges := (edges cl')[j := (edges cl' ! j)
                             \<lparr>actions := actions (edges cl' ! j) @ [''toDelete'']\<rparr>]\<rparr>))
                   (g, cl)
                   (indicesWhere (\<lambda>e. outputNodeId e = node_id marker) (edges cl)))))"

definition evaluateUserFunctionNode :: "VAX \<Rightarrow> Node \<Rightarrow> Graph \<Rightarrow> error + VAX \<times> Graph" where
  "evaluateUserFunctionNode this node g =
     (let userFunction = fmlookup (userFunctionStorage this) (node_c node);
          idThis = generateNextID this;
          prefix = ''uf_'' @ numberToString (fst idThis) @ ''_''
      in case Graph_clone g (Some prefix) of
           Inl e \<Rightarrow> Inl e
         | Inr cloneGraphWithPrefix \<Rightarrow>
            (let edgeWithNodeAsInput = indicesWhere (\<lambda>e. inputNodeId e = node_id node) (edges g)
             in case reduceThrowing redirectInput edgeWithNodeAsInput (g, cloneGraphWithPrefix) of
                  Inl e \<Rightarrow> Inl e
                | Inr gc1 \<Rightarrow>
                   (let edgeWithNodeAsOutput =
                          indicesWhere (\<lambda>e. outputNodeId e = node_id node) (edges (fst gc1))
                    in case reduceThrowing redirectOutput edgeWithNodeAsOutput gc1 of
                         Inl e \<Rightarrow> Inl e
                       | Inr gc2 \<Rightarrow>
                          (let systemNodesIds =
                                 map node_id (filter (\<lambda>n. take 3 (node_c n) = ''UF_'') (nodes (snd gc2)));
                               cl3 = deleteNodes (snd gc2) (\<lambda>n index. take 3 (node_c n) = ''UF_'');
                               cl4 = deleteEdges cl3 (\<lambda>e index. ''toDelete'' \<in> set (actions e)
                                                        \<or> outputNodeId e \<in> set systemNodesIds
                                                        \<or> inputNodeId e \<in> set systemNodesIds);
                               g3 = deleteEdges (fst gc2) (\<lambda>e index. ''toDelete'' \<in> set (actions e));
                               g4 = deleteNodes g3 (\<lambda>n index. node_id n = node_id node);
                               g5 = addNodes g4 (nodes cl4);
                               g6 = addEdges g5 (edges cl4)
                           in Inr (snd idThis, g6)))))"

text \<open>
  \<open>inlineUserFunctionsInGraph(graph = this.graph, rawUserFunctionsIds?)\<close>: the argument
  \<open>None\<close> stands for \<open>this.graph\<close> itself (the default), so what the passes do to the graph
  is done to the instance's graph; \<open>Some g\<close> is another \<open>Graph\<close> object. The recursion may
  go on forever, and then the result is \<open>None\<close>.
\<close>

partial_function (option) inlineUserFunctionsInGraph ::
  "VAX \<Rightarrow> Graph option \<Rightarrow> string list option \<Rightarrow> (error + (Graph option \<times> VAX)) option"
where
  "inlineUserFunctionsInGraph this garg rawUserFunctionsIds =
     (case (case garg of None \<Rightarrow> graph this | Some g \<Rightarrow> Some g) of
        None \<Rightarrow> Some (Inl TypeError)
      | Some g \<Rightarrow>
          (let userFunctionsIds =
                 (case rawUserFunctionsIds of None \<Rightarrow> [] | Some ids \<Rightarrow> ids)
                 @ (case rawUserFunctionsIds of
                      Some ids \<Rightarrow> []
                    | None \<Rightarrow> map fst (filter (\<lambda>entry. isUserFunction (snd entry))
                                              (components (schema this))));
               userFunctionsNodes = filter (\<lambda>n. node_c n \<in> set userFunctionsIds) (nodes g)
           in if length userFunctionsNodes \<le> 0 then Some (Inr (graph this, this))
              else
                (case reduceThrowing (\<lambda>tg node. evaluateUserFunctionNode (fst tg) node (snd tg))
                        userFunctionsNodes (this, g) of
                   Inl e \<Rightarrow> Some (Inl e)
                 | Inr tg \<Rightarrow>
                    (let this' = (case garg of None \<Rightarrow> (fst tg)\<lparr>graph := Some (snd tg)\<rparr>
                                             | Some v \<Rightarrow> fst tg);
                         garg' = (case garg of None \<Rightarrow> None | Some v \<Rightarrow> Some (snd tg));
                         updatedUserFunctionNodes =
                           filter (\<lambda>n. node_c n \<in> set userFunctionsIds) (nodes (snd tg))
                     in if length updatedUserFunctionNodes = 0 then Some (Inr (Some (snd tg), this'))
                        else inlineUserFunctionsInGraph this' garg' (Some userFunctionsIds)))))"

declare composeTree.simps [simp del]

declare numberToString.simps [simp del]

section \<open>Tree composition on object references\<close>

text \<open>
  Whether composing a tree changes the graph is a question about objects, not values:
  \<open>nodesObject\<close> and \<open>nodes\<close> hold references to the same \<open>Node\<close> objects, and
  \<open>composeTree\<close> assigns to fields (\<open>newNode.edges = ...\<close>, \<open>newNode.out = ...\<close>). This
  second model of the same methods keeps the objects in a store, addressed by their
  position, and the fields of the \<open>Graph\<close> object next to it. An object in the store is a
  \<open>Node\<close>, whose \<open>edges\<close> (if not \<open>undefined\<close>) maps a slot name to a reference, or a plain
  object that has at most the properties \<open>edges\<close> and \<open>out\<close>: the clone \<open>{}\<close> that lodash
  makes of an inherited member, with what is assigned to it. \<open>clone(node)\<close> allocates a new
  object with the properties of \<open>node\<close> as they are at that moment.
\<close>

type_synonym ref = nat

datatype Object =
    NodeObject string "any option" "any option" string "(string, ref) fmap option" "int option"
               "int option" "string option"
  | PlainObject "(string, ref) fmap optional" "string option optional"

record GraphObject =
  g_nodes :: "ref list"
  g_edges :: "Edge list"
  g_comments :: "Comment list"
  g_nodesObject :: "(string, ref) fmap"
  g_nodeEdgesObject :: NodeEdgesObject

record Store =
  this_graph :: GraphObject
  objects :: "Object list"

text \<open>The property \<open>id\<close> of an object, and the two assignments.\<close>

definition objectId :: "Object \<Rightarrow> string option" where
  "objectId obj = (case obj of NodeObject i a t c es x y out \<Rightarrow> Some i | PlainObject es out \<Rightarrow> None)"

definition assignEdges :: "Object \<Rightarrow> (string, ref) fmap \<Rightarrow> Object" where
  "assignEdges obj es =
     (case obj of
        NodeObject i a t c old x y out \<Rightarrow> NodeObject i a t c (Some es) x y out
      | PlainObject old out \<Rightarrow> PlainObject (Present es) out)"

definition assignOut :: "Object \<Rightarrow> string option \<Rightarrow> Object" where
  "assignOut obj out =
     (case obj of
        NodeObject i a t c es x y old \<Rightarrow> NodeObject i a t c es x y out
      | PlainObject es old \<Rightarrow> PlainObject es (Present out))"

text \<open>
  What \<open>composeTree\<close> reads of its argument \<open>node\<close>, the outcome of a lookup in
  \<open>nodesObject\<close>: \<open>node.id\<close>, which throws on \<open>undefined\<close> (\<open>None\<close>) and is \<open>undefined\<close> on an
  inherited member; and what \<open>clone(node)\<close> copies. A reference always points into the
  store.
\<close>

definition readId :: "Store \<Rightarrow> ref lookup \<Rightarrow> string option option" where
  "readId s node =
     (case node of
        Own p \<Rightarrow> if p < length (objects s) then Some (objectId (objects s ! p)) else None
      | Inherited name \<Rightarrow> Some None
      | Undefined \<Rightarrow> None)"

definition cloned :: "Store \<Rightarrow> ref lookup \<Rightarrow> Object option" where
  "cloned s node =
     (case node of
        Own p \<Rightarrow> if p < length (objects s) then Some (objects s ! p) else None
      | Inherited name \<Rightarrow> Some (PlainObject Absent Absent)
      | Undefined \<Rightarrow> None)"

definition allocClone :: "Store \<Rightarrow> Object \<Rightarrow> ref \<times> Store" where
  "allocClone s obj = (length (objects s), s\<lparr>objects := objects s @ [obj]\<rparr>)"

definition setEdges :: "Store \<Rightarrow> ref \<Rightarrow> (string, ref) fmap \<Rightarrow> Store" where
  "setEdges s p es = s\<lparr>objects := (objects s)[p := assignEdges (objects s ! p) es]\<rparr>"

definition setOut :: "Store \<Rightarrow> ref \<Rightarrow> string option \<Rightarrow> Store" where
  "setOut s p out = s\<lparr>objects := (objects s)[p := assignOut (objects s ! p) out]\<rparr>"

text \<open>The last three statements of \<open>composeTree\<close>: clone, assign \<open>edges\<close>, assign \<open>out\<close>.\<close>

definition cloneAndAssign ::
  "Store \<Rightarrow> ref lookup \<Rightarrow> (string, ref) fmap \<Rightarrow> string option \<Rightarrow> (error + ref) \<times> Store" where
  "cloneAndAssign s node nodeEdges out =
     (case cloned s node of
        None \<Rightarrow> (Inl TypeError, s)
      | Some current \<Rightarrow>
          (case allocClone s current of
             (newNode, s') \<Rightarrow> (Inr newNode, setOut (setEdges s' newNode nodeEdges) newNode out)))"

definition storeIds :: "Store \<Rightarrow> string option set" where
  "storeIds s = insert None (objectId ` set (objects s))"

function composeTreeS :: "Store \<Rightarrow> ref lookup \<Rightarrow> string option list \<Rightarrow> string option \<Rightarrow> (error + ref) \<times> Store"
  and composeEdgesS :: "Store \<Rightarrow> string option list \<Rightarrow> EdgeObject list \<Rightarrow> (string, ref) fmap
                          \<Rightarrow> (error + (string, ref) fmap) \<times> Store"
where
  "composeTreeS s node rawParentsIds out =
     (case readId s node of
        None \<Rightarrow> (Inl TypeError, s)
      | Some nid \<Rightarrow>
          if list_ex (\<lambda>pid. pid = nid) rawParentsIds
          then (Inl (CycleDetected nid rawParentsIds), s)
          else
            (case propertyRead (g_nodeEdgesObject (this_graph s)) (keyOf nid) of
               Inherited name \<Rightarrow> (Inl TypeError, s)
             | Own rawNodeEdges \<Rightarrow>
                 (case composeEdgesS s (union_lodash rawParentsIds [nid]) rawNodeEdges fmempty of
                    (Inl e, s1) \<Rightarrow> (Inl e, s1)
                  | (Inr nodeEdges, s1) \<Rightarrow> cloneAndAssign s1 node nodeEdges out)
             | Undefined \<Rightarrow>
                 (case composeEdgesS s (union_lodash rawParentsIds [nid]) [] fmempty of
                    (Inl e, s1) \<Rightarrow> (Inl e, s1)
                  | (Inr nodeEdges, s1) \<Rightarrow> cloneAndAssign s1 node nodeEdges out)))"
| "composeEdgesS s newParentsIds [] acc = (Inr acc, s)"
| "composeEdgesS s newParentsIds (edgeData # rest) acc =
     (case composeTreeS s (propertyRead (g_nodesObject (this_graph s)) (eo_outputNodeId edgeData))
             newParentsIds (Some (eo_out edgeData)) of
        (Inl e, s1) \<Rightarrow> (Inl e, s1)
      | (Inr sub, s1) \<Rightarrow> composeEdgesS s1 newParentsIds rest (fmupd (eo_in edgeData) sub acc))"
  by pat_completeness auto

text \<open>
  Composition only ever adds clones to the store, so the ids that occur in it stay the
  same; this is what makes the recursion end.
\<close>

lemma objectId_assignEdges: "objectId (assignEdges obj es) = objectId obj"
  by (cases obj) (simp_all add: objectId_def assignEdges_def)

lemma objectId_assignOut: "objectId (assignOut obj out) = objectId obj"
  by (cases obj) (simp_all add: objectId_def assignOut_def)

lemma map_id_update:
  assumes "\<And>obj. objectId (f obj) = objectId obj"
  shows "map objectId (xs[p := f (xs ! p)]) = map objectId xs"
proof (cases "p < length xs")
  case True
  then show ?thesis by (simp add: map_update list_update_same_conv assms)
next
  case False
  then have "length xs \<le> p" by simp
  then show ?thesis by (simp only: list_update_beyond)
qed

lemma storeIds_setEdges: "storeIds (setEdges s p es) = storeIds s"
proof -
  have "map objectId ((objects s)[p := assignEdges (objects s ! p) es]) = map objectId (objects s)"
    by (rule map_id_update [where f = "\<lambda>obj. assignEdges obj es"]) (rule objectId_assignEdges)
  then have "set (map objectId ((objects s)[p := assignEdges (objects s ! p) es]))
      = set (map objectId (objects s))" by simp
  then show ?thesis
    unfolding storeIds_def setEdges_def by simp
qed

lemma storeIds_setOut: "storeIds (setOut s p out) = storeIds s"
proof -
  have "map objectId ((objects s)[p := assignOut (objects s ! p) out]) = map objectId (objects s)"
    by (rule map_id_update [where f = "\<lambda>obj. assignOut obj out"]) (rule objectId_assignOut)
  then have "set (map objectId ((objects s)[p := assignOut (objects s ! p) out]))
      = set (map objectId (objects s))" by simp
  then show ?thesis
    unfolding storeIds_def setOut_def by simp
qed

lemma storeIds_cloneAndAssign: "storeIds (snd (cloneAndAssign s node es out)) = storeIds s"
proof (cases "cloned s node")
  case None
  then show ?thesis by (simp add: cloneAndAssign_def)
next
  case (Some current)
  then have "objectId current \<in> storeIds s"
    by (auto simp: cloned_def storeIds_def objectId_def split: lookup.splits if_splits)
  then have "storeIds (snd (allocClone s current)) = storeIds s"
    by (auto simp: storeIds_def allocClone_def)
  with Some show ?thesis
    by (simp add: cloneAndAssign_def storeIds_setEdges storeIds_setOut split: prod.split)
      (simp add: allocClone_def)
qed

lemma composeS_ids_dom:
  "composeTreeS_composeEdgesS_dom (Inl (s, node, ps, out)) \<Longrightarrow>
     storeIds (snd (composeTreeS s node ps out)) \<subseteq> storeIds s"
  "composeTreeS_composeEdgesS_dom (Inr (s, ps, es, acc)) \<Longrightarrow>
     storeIds (snd (composeEdgesS s ps es acc)) \<subseteq> storeIds s"
proof (induction s node ps out and s ps es acc rule: composeTreeS_composeEdgesS.pinduct)
  case (1 s node rawParentsIds out)
  show ?case
  proof (cases "readId s node")
    case None
    then show ?thesis using 1(1) by (simp add: composeTreeS.psimps)
  next
    case (Some nid)
    show ?thesis
    proof (cases "list_ex (\<lambda>pid. pid = nid) rawParentsIds")
      case True
      then show ?thesis using 1(1) Some by (simp add: composeTreeS.psimps)
    next
      case False
      show ?thesis
      proof (cases "propertyRead (g_nodeEdgesObject (this_graph s)) (keyOf nid)")
        case (Inherited name)
        then show ?thesis using 1(1) Some False by (simp add: composeTreeS.psimps)
      next
        case (Own l)
        define r where "r = composeEdgesS s (union_lodash rawParentsIds [nid]) l fmempty"
        have sub: "storeIds (snd r) \<subseteq> storeIds s"
          unfolding r_def using 1(2) [OF Some False Own] .
        obtain res s1 where r: "r = (res, s1)" by (cases r)
        show ?thesis
          using 1(1) Some False Own sub r
          by (cases res) (simp_all add: composeTreeS.psimps r_def [symmetric] storeIds_cloneAndAssign)
      next
        case Undefined
        define r where "r = composeEdgesS s (union_lodash rawParentsIds [nid]) [] fmempty"
        have sub: "storeIds (snd r) \<subseteq> storeIds s"
          unfolding r_def using 1(3) [OF Some False Undefined] .
        obtain res s1 where r: "r = (res, s1)" by (cases r)
        show ?thesis
          using 1(1) Some False Undefined sub r
          by (cases res) (simp_all add: composeTreeS.psimps r_def [symmetric] storeIds_cloneAndAssign)
      qed
    qed
  qed
next
  case (2 s newParentsIds acc)
  then show ?case by (simp add: composeEdgesS.psimps)
next
  case (3 s newParentsIds edgeData rest acc)
  define r where "r = composeTreeS s (propertyRead (g_nodesObject (this_graph s)) (eo_outputNodeId edgeData))
             newParentsIds (Some (eo_out edgeData))"
  have sub: "storeIds (snd r) \<subseteq> storeIds s"
    unfolding r_def using 3(2) .
  show ?case
  proof (cases r)
    case (Pair res s1)
    show ?thesis
    proof (cases res)
      case (Inl e)
      then show ?thesis using 3(1) Pair sub by (simp add: composeEdgesS.psimps r_def [symmetric])
    next
      case (Inr subtree)
      have "storeIds (snd (composeEdgesS s1 newParentsIds rest (fmupd (eo_in edgeData) subtree acc)))
              \<subseteq> storeIds s1"
        using 3(3) Pair Inr by (simp add: r_def)
      then show ?thesis using 3(1) Pair Inr sub
        by (auto simp: composeEdgesS.psimps r_def [symmetric])
    qed
  qed
qed

termination composeTreeS
proof (relation "(\<lambda>v. case v of
           Inl (s, node, ps, out) \<Rightarrow>
             (case readId s node of
                None \<Rightarrow> 0
              | Some nid \<Rightarrow> if nid \<in> set ps then 0
                            else Suc (card (storeIds s - set ps - {nid})))
         | Inr (s, ps, es, acc) \<Rightarrow> card (storeIds s - set ps))
        <*mlex*> measure (\<lambda>v. case v of Inl _ \<Rightarrow> 0 | Inr (s, ps, es, acc) \<Rightarrow> Suc (length es))",
       goal_cases)
  case 1
  then show ?case by (simp add: wf_mlex)
next
  case (2 s node rawParentsIds out nid rawNodeEdges)
  then have notin: "nid \<notin> set rawParentsIds"
    by (simp add: list_ex_iff)
  have "storeIds s - set (union_lodash rawParentsIds [nid])
          = storeIds s - set rawParentsIds - {nid}"
    by (auto simp: union_lodash_def)
  with notin 2 show ?case by (simp add: mlex_prod_def)
next
  case (3 s node rawParentsIds out nid)
  then have notin: "nid \<notin> set rawParentsIds"
    by (simp add: list_ex_iff)
  have "storeIds s - set (union_lodash rawParentsIds [nid])
          = storeIds s - set rawParentsIds - {nid}"
    by (auto simp: union_lodash_def)
  with notin 3 show ?case by (simp add: mlex_prod_def)
next
  case (4 s newParentsIds edgeData rest acc)
  have fin: "finite (storeIds s - set newParentsIds)"
    by (simp add: storeIds_def)
  show ?case
  proof (cases "readId s (propertyRead (g_nodesObject (this_graph s)) (eo_outputNodeId edgeData))")
    case None
    then show ?thesis by (simp add: mlex_prod_def) arith
  next
    case (Some nid)
    then have mem: "nid \<in> storeIds s"
      by (auto simp: readId_def storeIds_def split: lookup.splits if_splits)
    show ?thesis
    proof (cases "nid \<in> set newParentsIds")
      case True
      with Some show ?thesis by (simp add: mlex_prod_def) arith
    next
      case False
      with mem have "nid \<in> storeIds s - set newParentsIds" by simp
      with fin have "card (storeIds s - set newParentsIds)
          = Suc (card (storeIds s - set newParentsIds - {nid}))"
        by (rule card.remove)
      with False Some show ?thesis by (simp add: mlex_prod_def)
    qed
  qed
next
  case (5 s newParentsIds edgeData rest acc res s1 sub)
  have "storeIds (snd (composeTreeS s
          (propertyRead (g_nodesObject (this_graph s)) (eo_outputNodeId edgeData))
          newParentsIds (Some (eo_out edgeData)))) \<subseteq> storeIds s"
    using 5(3) by (rule composeS_ids_dom(1))
  then have "storeIds s1 \<subseteq> storeIds s"
    by (simp flip: 5(1))
  then have "card (storeIds s1 - set newParentsIds) \<le> card (storeIds s - set newParentsIds)"
    by (intro card_mono) (auto simp: storeIds_def)
  then show ?case by (simp add: mlex_prod_def) arith
qed

definition composeTreeWithRootNodeS :: "Store \<Rightarrow> string \<Rightarrow> (error + ref) \<times> Store" where
  "composeTreeWithRootNodeS s rootNodeId =
     composeTreeS s (propertyRead (g_nodesObject (this_graph s)) rootNodeId) [] None"

definition getRootNodesS :: "Store \<Rightarrow> ref list" where
  "getRootNodesS s =
     filter (\<lambda>node. case readId s (Own node) of
                       None \<Rightarrow> True
                     | Some nid \<Rightarrow> list_all (\<lambda>e. Some (inputNodeId e) \<noteq> nid) (g_edges (this_graph s)))
            (g_nodes (this_graph s))"

fun composeTreesLoop :: "Store \<Rightarrow> ref list \<Rightarrow> (error + ref list) \<times> Store" where
  "composeTreesLoop s [] = (Inr [], s)"
| "composeTreesLoop s (rootNode # rest) =
     (case readId s (Own rootNode) of
        None \<Rightarrow> (Inl TypeError, s)
      | Some nid \<Rightarrow>
          (case composeTreeWithRootNodeS s (keyOf nid) of
             (Inl e, s1) \<Rightarrow> (Inl e, s1)
           | (Inr tree, s1) \<Rightarrow>
               (case composeTreesLoop s1 rest of
                  (Inl e, s2) \<Rightarrow> (Inl e, s2)
                | (Inr trees, s2) \<Rightarrow> (Inr (tree # trees), s2))))"

definition composeTreesS :: "Store \<Rightarrow> (error + ref list) \<times> Store" where
  "composeTreesS s = composeTreesLoop s (getRootNodesS s)"

text \<open>What a call leaves alone: the fields of the \<open>Graph\<close> object, and every object that
  was in the store when the call began.\<close>

definition unchangedBy :: "Store \<Rightarrow> Store \<Rightarrow> bool" where
  "unchangedBy s s' =
     (this_graph s' = this_graph s \<and> take (length (objects s)) (objects s') = objects s)"

declare composeTreeS.simps [simp del]

section \<open>Notions used in the statements\<close>

text \<open>Whether a result is the error that \<open>composeTree\<close> throws on a repeated node id.\<close>

fun isCycleDetected :: "error \<Rightarrow> bool" where
  "isCycleDetected (CycleDetected n ps) = True"
| "isCycleDetected TypeError = False"

definition raisesCycleDetected :: "error + 'a \<Rightarrow> bool" where
  "raisesCycleDetected r = (case r of Inl e \<Rightarrow> isCycleDetected e | Inr v \<Rightarrow> False)"

text \<open>The pairs (consumer id, producer id) of the edges of a raw graph, and whether one of
  its edges names as its consumer a name that every object inherits.\<close>

definition consumesFrom :: "RawGraph \<Rightarrow> (string \<times> string) set" where
  "consumesFrom raw = (\<lambda>(consumer, consumerSlot, producer, producerSlot). (consumer, producer)) ` set (raw_edges raw)"

definition inheritedConsumer :: "RawGraph \<Rightarrow> bool" where
  "inheritedConsumer raw =
     list_ex (\<lambda>(consumer, consumerSlot, producer, producerSlot). consumer \<in> set inheritedNames)
       (raw_edges raw)"

text \<open>
  What \<open>getNodeEdgesObject\<close> builds when it does not throw; whether an edge of a raw graph
  names as its producer an inherited name that is not the id of a node built from it;
  whether no edge of a graph names an inherited name as its consumer, so that the graph
  can be cloned; and whether every node of a graph has an \<open>a\<close> that is not \<open>undefined\<close>.
\<close>

definition indexOfEdges :: "NodeEdgesObject \<Rightarrow> Edge list \<Rightarrow> NodeEdgesObject" where
  "indexOfEdges m es =
     foldl (\<lambda>acc e.
              fmupd (inputNodeId e)
                ((case fmlookup acc (inputNodeId e) of None \<Rightarrow> [] | Some l \<Rightarrow> l)
                 @ [\<lparr>eo_in = inputName e, eo_outputNodeId = outputNodeId e, eo_out = outputName e\<rparr>])
                acc) m es"

definition danglingInherited :: "RawGraph \<Rightarrow> string option \<Rightarrow> bool" where
  "danglingInherited raw prefix =
     list_ex (\<lambda>(consumer, consumerSlot, producer, producerSlot).
                producer \<in> set inheritedNames
                \<and> producer \<notin> set (map (\<lambda>r. withPrefix prefix (inode_id r)) (raw_nodes raw)))
       (raw_edges raw)"

definition cloneable :: "Graph \<Rightarrow> bool" where
  "cloneable g = (\<not> list_ex (\<lambda>e. inputNodeId e \<in> set inheritedNames) (edges g))"

definition attributed :: "Graph \<Rightarrow> bool" where
  "attributed g = list_all (\<lambda>n. node_a n \<noteq> None) (nodes g)"

text \<open>A raw node with every property that it leaves out written as \<open>undefined\<close>; a raw
  graph with its nodes so written; and whether a raw node leaves none of \<open>a\<close>, \<open>t\<close>, \<open>edges\<close>,
  \<open>x\<close>, \<open>y\<close> and \<open>out\<close> out.\<close>

definition written :: "INode \<Rightarrow> INode" where
  "written r =
     INode (inode_id r) (Present (destructured (inode_a r))) (Present (destructured (inode_t r)))
           (Present (destructured (inode_edges r))) (inode_c r)
           (Present (destructured (inode_x r))) (Present (destructured (inode_y r)))
           (Present (destructured (inode_out r)))"

definition writtenGraph :: "RawGraph \<Rightarrow> RawGraph" where
  "writtenGraph raw = raw\<lparr>raw_nodes := map written (raw_nodes raw)\<rparr>"

definition leavesNoneOut :: "INode \<Rightarrow> bool" where
  "leavesNoneOut r =
     (inode_a r \<noteq> Absent \<and> inode_t r \<noteq> Absent \<and> inode_edges r \<noteq> Absent
      \<and> inode_x r \<noteq> Absent \<and> inode_y r \<noteq> Absent \<and> inode_out r \<noteq> Absent)"

text \<open>Example data: a raw node as the interface \<open>INode\<close> has it, \<open>{id, a: {}, t: {},
  edges: {}, c}\<close> with the optional \<open>x\<close>, \<open>y\<close> and \<open>out\<close> left out, and the \<open>Node\<close> built
  from it; the raw node \<open>{id, c}\<close>, which leaves out all six; the empty raw graph, a host
  graph with one call of a user function \<open>F\<close>, the three-node graph and the two-node cycle
  of the testable properties.\<close>

definition plainRawNode :: "string \<Rightarrow> string \<Rightarrow> INode" where
  "plainRawNode nodeId componentType =
     INode nodeId (Present (Some fmempty)) (Present (Some fmempty)) (Present (Some fmempty))
       componentType Absent Absent Absent"

definition plainNode :: "string \<Rightarrow> string \<Rightarrow> Node" where
  "plainNode nodeId componentType =
     Node nodeId (Some fmempty) (Some fmempty) componentType (Some fmempty) None None None"

definition bareRawNode :: "string \<Rightarrow> string \<Rightarrow> INode" where
  "bareRawNode nodeId componentType =
     INode nodeId Absent Absent Absent componentType Absent Absent Absent"

definition emptyRawGraph :: RawGraph where
  "emptyRawGraph = \<lparr>raw_nodes = [], raw_edges = [], raw_comments = []\<rparr>"

definition hostExample :: RawGraph where
  "hostExample =
     \<lparr>raw_nodes = [plainRawNode ''k'' ''Const'', plainRawNode ''call'' ''F'',
                   plainRawNode ''s'' ''Sink''],
      raw_edges = [(''call'', ''In1'', ''k'', ''out''), (''s'', ''v'', ''call'', ''Out1'')],
      raw_comments = []\<rparr>"

definition threeNodeGraph :: "INode \<Rightarrow> INode \<Rightarrow> INode \<Rightarrow> RawGraph" where
  "threeNodeGraph root p1 p2 =
     \<lparr>raw_nodes = [root, p1, p2],
      raw_edges = [(''root'', ''x'', ''p1'', ''out''), (''root'', ''y'', ''p2'', ''out'')],
      raw_comments = []\<rparr>"

definition twoNodeCycle :: "INode \<Rightarrow> INode \<Rightarrow> RawGraph" where
  "twoNodeCycle nodeA nodeB =
     \<lparr>raw_nodes = [nodeA, nodeB],
      raw_edges = [(''A'', ''in'', ''B'', ''out''), (''B'', ''in'', ''A'', ''out'')],
      raw_comments = []\<rparr>"

definition acyclicExample :: RawGraph where
  "acyclicExample =
     threeNodeGraph (plainRawNode ''root'' ''Add'') (plainRawNode ''p1'' ''Const'')
       (plainRawNode ''p2'' ''Const'')"

text \<open>
  The graphs that the constructor builds from some small raw graphs, written out: from the
  empty raw graph; from the host example; from the single node \<open>k\<close>, as \<open>INode\<close> has it and
  as \<open>{id, c}\<close>; from the two-node
  cycle; and from the node \<open>A\<close> with the edges \<open>(A, in, constructor, out)\<close> and
  \<open>(undefined, in, A, out)\<close>. And the callback \<open>() => true\<close> for \<open>deleteNodes\<close> and
  \<open>deleteEdges\<close>.
\<close>

definition hostGraph :: Graph where
  "hostGraph =
     \<lparr>nodes = [plainNode ''k'' ''Const'', plainNode ''call'' ''F'', plainNode ''s'' ''Sink''],
      edges = [Edge_constructor (''call'', ''In1'', ''k'', ''out'') None None None,
               Edge_constructor (''s'', ''v'', ''call'', ''Out1'') None None None],
      comments = [],
      nodesObject =
        fmupd ''s'' (plainNode ''s'' ''Sink'')
          (fmupd ''call'' (plainNode ''call'' ''F'')
             (fmupd ''k'' (plainNode ''k'' ''Const'') fmempty)),
      nodeEdgesObject =
        fmupd ''s'' [\<lparr>eo_in = ''v'', eo_outputNodeId = ''call'', eo_out = ''Out1''\<rparr>]
          (fmupd ''call'' [\<lparr>eo_in = ''In1'', eo_outputNodeId = ''k'', eo_out = ''out''\<rparr>] fmempty)\<rparr>"

definition emptyGraph :: Graph where
  "emptyGraph =
     \<lparr>nodes = [], edges = [], comments = [], nodesObject = fmempty, nodeEdgesObject = fmempty\<rparr>"

definition oneNodeRaw :: RawGraph where
  "oneNodeRaw = \<lparr>raw_nodes = [plainRawNode ''k'' ''Const''], raw_edges = [], raw_comments = []\<rparr>"

definition oneNodeGraph :: Graph where
  "oneNodeGraph =
     \<lparr>nodes = [plainNode ''k'' ''Const''], edges = [], comments = [],
      nodesObject = fmupd ''k'' (plainNode ''k'' ''Const'') fmempty,
      nodeEdgesObject = fmempty\<rparr>"

definition bareRaw :: RawGraph where
  "bareRaw = \<lparr>raw_nodes = [bareRawNode ''k'' ''Const''], raw_edges = [], raw_comments = []\<rparr>"

definition bareGraph :: Graph where
  "bareGraph =
     \<lparr>nodes = [Node ''k'' None None ''Const'' None None None None], edges = [], comments = [],
      nodesObject = fmupd ''k'' (Node ''k'' None None ''Const'' None None None None) fmempty,
      nodeEdgesObject = fmempty\<rparr>"

definition cycleGraph :: Graph where
  "cycleGraph =
     \<lparr>nodes = [plainNode ''A'' ''Add'', plainNode ''B'' ''Add''],
      edges = [Edge_constructor (''A'', ''in'', ''B'', ''out'') None None None,
               Edge_constructor (''B'', ''in'', ''A'', ''out'') None None None],
      comments = [],
      nodesObject = fmupd ''B'' (plainNode ''B'' ''Add'') (fmupd ''A'' (plainNode ''A'' ''Add'') fmempty),
      nodeEdgesObject =
        fmupd ''B'' [\<lparr>eo_in = ''in'', eo_outputNodeId = ''A'', eo_out = ''out''\<rparr>]
          (fmupd ''A'' [\<lparr>eo_in = ''in'', eo_outputNodeId = ''B'', eo_out = ''out''\<rparr>] fmempty)\<rparr>"

definition jumpRaw :: RawGraph where
  "jumpRaw =
     \<lparr>raw_nodes = [plainRawNode ''A'' ''Add''],
      raw_edges = [(''A'', ''in'', ''constructor'', ''out''), (''undefined'', ''in'', ''A'', ''out'')],
      raw_comments = []\<rparr>"

definition jumpGraph :: Graph where
  "jumpGraph =
     \<lparr>nodes = [plainNode ''A'' ''Add''],
      edges = [Edge_constructor (''A'', ''in'', ''constructor'', ''out'') None None None,
               Edge_constructor (''undefined'', ''in'', ''A'', ''out'') None None None],
      comments = [],
      nodesObject = fmupd ''A'' (plainNode ''A'' ''Add'') fmempty,
      nodeEdgesObject =
        fmupd ''undefined'' [\<lparr>eo_in = ''in'', eo_outputNodeId = ''A'', eo_out = ''out''\<rparr>]
          (fmupd ''A'' [\<lparr>eo_in = ''in'', eo_outputNodeId = ''constructor'', eo_out = ''out''\<rparr>] fmempty)\<rparr>"

definition everything :: "'a \<Rightarrow> nat \<Rightarrow> bool" where
  "everything v index = True"

text \<open>A store holding the three-node graph: the three \<open>Node\<close> objects at the references 0,
  1 and 2, and the \<open>Graph\<close> object with its two indices.\<close>

definition plainObject :: "string \<Rightarrow> string \<Rightarrow> Object" where
  "plainObject nodeId componentType =
     NodeObject nodeId (Some fmempty) (Some fmempty) componentType (Some fmempty) None None None"

definition exampleStore :: Store where
  "exampleStore =
     \<lparr>this_graph =
        \<lparr>g_nodes = [0, 1, 2],
         g_edges = [Edge_constructor (''root'', ''x'', ''p1'', ''out'') None None None,
                    Edge_constructor (''root'', ''y'', ''p2'', ''out'') None None None],
         g_comments = [],
         g_nodesObject = fmupd ''p2'' 2 (fmupd ''p1'' 1 (fmupd ''root'' 0 fmempty)),
         g_nodeEdgesObject =
           fmupd ''root'' [\<lparr>eo_in = ''x'', eo_outputNodeId = ''p1'', eo_out = ''out''\<rparr>,
                           \<lparr>eo_in = ''y'', eo_outputNodeId = ''p2'', eo_out = ''out''\<rparr>] fmempty\<rparr>,
      objects = [plainObject ''root'' ''Add'', plainObject ''p1'' ''Const'', plainObject ''p2'' ''Const'']\<rparr>"

text \<open>
  How the two models of tree composition correspond. A reference holds a node value when
  the object it points to is a \<open>Node\<close> with the value's \<open>id\<close>, \<open>a\<close>, \<open>t\<close>, \<open>c\<close>, \<open>x\<close> and \<open>y\<close>
  (\<open>composeTree\<close> reads nothing else of a node); a store implements a graph value when the
  index of the edges is the same and the index of the nodes corresponds in this way. A
  reference represents a composed tree when the object it points to has the tree's
  properties and its \<open>edges\<close> represent the tree's \<open>edges\<close> slot by slot. Two outcomes are
  the same when both are the same error or both are results that correspond.
\<close>

definition holds :: "Store \<Rightarrow> ref \<Rightarrow> Node \<Rightarrow> bool" where
  "holds s r n =
     (r < length (objects s)
      \<and> (case objects s ! r of
           NodeObject i a t c es x y out \<Rightarrow>
             i = node_id n \<and> a = node_a n \<and> t = node_t n \<and> c = node_c n
             \<and> x = node_x n \<and> y = node_y n
         | PlainObject es out \<Rightarrow> False))"

definition implements :: "Store \<Rightarrow> Graph \<Rightarrow> bool" where
  "implements s g =
     (g_nodeEdgesObject (this_graph s) = nodeEdgesObject g
      \<and> fmrel (holds s) (g_nodesObject (this_graph s)) (nodesObject g))"

inductive represents :: "Store \<Rightarrow> ref \<Rightarrow> Tree \<Rightarrow> bool" for s :: Store where
  "r < length (objects s) \<Longrightarrow>
   objects s ! r = NodeObject i a t c (Some es) x y out \<Longrightarrow>
   fmrel (represents s) es es' \<Longrightarrow>
   represents s r (Copy i a t c es' x y out)"
| "r < length (objects s) \<Longrightarrow>
   objects s ! r = PlainObject (Present es) (Present out) \<Longrightarrow>
   fmrel (represents s) es es' \<Longrightarrow>
   represents s r (Bare es' out)"

definition sameTree :: "(error + ref) \<times> Store \<Rightarrow> error + Tree \<Rightarrow> bool" where
  "sameTree rs v =
     (case rs of
        (Inl e, s') \<Rightarrow> v = Inl e
      | (Inr p, s') \<Rightarrow> (case v of Inl e \<Rightarrow> False | Inr n \<Rightarrow> represents s' p n))"

definition sameEdges :: "(error + (string, ref) fmap) \<times> Store \<Rightarrow> error + (string, Tree) fmap \<Rightarrow> bool" where
  "sameEdges rs v =
     (case rs of
        (Inl e, s') \<Rightarrow> v = Inl e
      | (Inr m, s') \<Rightarrow> (case v of Inl e \<Rightarrow> False | Inr m' \<Rightarrow> fmrel (represents s') m m'))"

text \<open>
  What the inliner looks at: the graph it works on (\<open>this.graph\<close> unless another one is
  passed), the component types it takes for user functions, and whether the graph holds a
  node of such a type that the clean-up of a clone keeps (its type does not start with
  \<open>UF_\<close>).
\<close>

definition givenGraph :: "VAX \<Rightarrow> Graph option \<Rightarrow> Graph option" where
  "givenGraph this garg = (case garg of None \<Rightarrow> graph this | Some g \<Rightarrow> Some g)"

definition userFunctionsIdsOf :: "VAX \<Rightarrow> string list option \<Rightarrow> string list" where
  "userFunctionsIdsOf this rawUserFunctionsIds =
     (case rawUserFunctionsIds of None \<Rightarrow> [] | Some ids \<Rightarrow> ids)
     @ (case rawUserFunctionsIds of
          Some ids \<Rightarrow> []
        | None \<Rightarrow> map fst (filter (\<lambda>entry. isUserFunction (snd entry)) (components (schema this))))"

definition callRemains :: "string list \<Rightarrow> Graph \<Rightarrow> bool" where
  "callRemains ids g = list_ex (\<lambda>n. node_c n \<in> set ids \<and> take 3 (node_c n) \<noteq> ''UF_'') (nodes g)"

section \<open>Evaluating the model on concrete graphs\<close>

lemmas graph_eval =
  Graph_constructor_def getNodesObject_def getNodeEdgesObject_def Node_constructor_def
  Edge_constructor_def withPrefix_def union_lodash_def Let_def propertyRead_def
  inheritedNames_def destructured_def

lemma raisesCycleDetected_simps [simp]:
  "raisesCycleDetected (Inl e) = isCycleDetected e"
  "raisesCycleDetected (Inr v) = False"
  by (simp_all add: raisesCycleDetected_def)

section \<open>What the constructor builds\<close>

text \<open>
  The constructor throws exactly when an edge names an inherited name as its consumer;
  otherwise the index of the edges is \<open>indexOfEdges\<close> of its edges.
\<close>

lemma propertyRead_Own: "fmlookup m k = Some v \<Longrightarrow> propertyRead m k = Own v"
  by (simp add: propertyRead_def)

lemma propertyRead_Inherited:
  "fmlookup m k = None \<Longrightarrow> k \<in> set inheritedNames \<Longrightarrow> propertyRead m k = Inherited k"
  by (simp add: propertyRead_def)

lemma propertyRead_Undefined:
  "fmlookup m k = None \<Longrightarrow> k \<notin> set inheritedNames \<Longrightarrow> propertyRead m k = Undefined"
  by (simp add: propertyRead_def)

lemma reduce_edges:
  "fmdom' acc \<inter> set inheritedNames = {} \<Longrightarrow>
   reduceThrowing
       (\<lambda>acc e.
          case propertyRead acc (inputNodeId e) of
            Inherited name \<Rightarrow> Inl TypeError
          | Own l \<Rightarrow>
              Inr (fmupd (inputNodeId e)
                     (l @ [\<lparr>eo_in = inputName e, eo_outputNodeId = outputNodeId e, eo_out = outputName e\<rparr>])
                     acc)
          | Undefined \<Rightarrow>
              Inr (fmupd (inputNodeId e)
                     ([] @ [\<lparr>eo_in = inputName e, eo_outputNodeId = outputNodeId e, eo_out = outputName e\<rparr>])
                     acc))
       es acc
     = (if list_ex (\<lambda>e. inputNodeId e \<in> set inheritedNames) es then Inl TypeError
        else Inr (indexOfEdges acc es))"
proof (induction es arbitrary: acc)
  case Nil
  then show ?case by (simp add: indexOfEdges_def)
next
  case (Cons e es)
  show ?case
  proof (cases "inputNodeId e \<in> set inheritedNames")
    case True
    with Cons.prems have "inputNodeId e \<notin> fmdom' acc"
      by blast
    then have "fmlookup acc (inputNodeId e) = None"
      by (rule fmdom'_notD)
    with True show ?thesis by (simp add: propertyRead_Inherited)
  next
    case False
    define acc' where "acc' = fmupd (inputNodeId e)
                ((case fmlookup acc (inputNodeId e) of None \<Rightarrow> [] | Some l \<Rightarrow> l)
                 @ [\<lparr>eo_in = inputName e, eo_outputNodeId = outputNodeId e, eo_out = outputName e\<rparr>])
                acc"
    have dom: "fmdom' acc' \<inter> set inheritedNames = {}"
      using Cons.prems False by (auto simp: acc'_def)
    have unfold: "indexOfEdges acc (e # es) = indexOfEdges acc' es"
      by (simp add: indexOfEdges_def acc'_def)
    show ?thesis
    proof (cases "fmlookup acc (inputNodeId e)")
      case None
      then have "acc' = fmupd (inputNodeId e)
          ([] @ [\<lparr>eo_in = inputName e, eo_outputNodeId = outputNodeId e, eo_out = outputName e\<rparr>]) acc"
        by (simp add: acc'_def)
      with Cons.IH [OF dom] False None show ?thesis
        by (simp add: propertyRead_Undefined unfold)
    next
      case (Some l)
      then have "acc' = fmupd (inputNodeId e)
          (l @ [\<lparr>eo_in = inputName e, eo_outputNodeId = outputNodeId e, eo_out = outputName e\<rparr>]) acc"
        by (simp add: acc'_def)
      with Cons.IH [OF dom] False Some show ?thesis
        by (simp add: propertyRead_Own unfold)
    qed
  qed
qed

lemma getNodeEdgesObject_cases:
  "getNodeEdgesObject es
     = (if list_ex (\<lambda>e. inputNodeId e \<in> set inheritedNames) es then Inl TypeError
        else Inr (indexOfEdges fmempty es))"
  unfolding getNodeEdgesObject_def by (rule reduce_edges) simp

lemma Graph_constructor_cases:
  "Graph_constructor raw prefix
     = (if inheritedConsumer raw then Inl TypeError
        else Inr \<lparr>nodes = map (\<lambda>r. Node_constructor r prefix) (raw_nodes raw),
                  edges = map (\<lambda>r. Edge_constructor r prefix None None) (raw_edges raw),
                  comments = map Comment_constructor (raw_comments raw),
                  nodesObject = getNodesObject (map (\<lambda>r. Node_constructor r prefix) (raw_nodes raw)),
                  nodeEdgesObject =
                    indexOfEdges fmempty (map (\<lambda>r. Edge_constructor r prefix None None) (raw_edges raw))\<rparr>)"
proof -
  have "list_ex (\<lambda>e. inputNodeId e \<in> set inheritedNames)
          (map (\<lambda>r. Edge_constructor r prefix None None) (raw_edges raw)) = inheritedConsumer raw"
    by (simp add: inheritedConsumer_def list_ex_iff Edge_constructor_def split_beta)
  then show ?thesis
    by (simp add: Graph_constructor_def Let_def getNodeEdgesObject_cases)
qed

section \<open>Loading and saving\<close>

lemma rawNode_Node_constructor: "rawNode (Node_constructor r None) = written r"
  by (cases r) (simp add: rawNode_def Node_constructor_def withPrefix_def written_def)

lemma rawEdge_Edge_constructor: "rawEdge (Edge_constructor r None a b) = r"
  by (cases r) (simp add: rawEdge_def Edge_constructor_def withPrefix_def)

lemma rawComment_Comment_constructor: "rawComment (Comment_constructor r) = r"
  by (simp add: rawComment_def Comment_constructor_def)

lemma rawGraph_Graph_constructor:
  "Graph_constructor G None = Inr g \<Longrightarrow> rawGraph g = writtenGraph G"
  by (auto simp: Graph_constructor_cases rawGraph_def comp_def writtenGraph_def
      rawNode_Node_constructor rawEdge_Edge_constructor rawComment_Comment_constructor
      split: if_splits)

lemma Present_destructured: "(Present (destructured p) = p) = (p \<noteq> Absent)"
  by (cases p) (simp_all add: destructured_def)

lemma written_fixpoint: "(written r = r) = leavesNoneOut r"
  by (cases r) (auto simp: written_def leavesNoneOut_def Present_destructured)

lemma writtenGraph_fixpoint: "(writtenGraph G = G) = list_all leavesNoneOut (raw_nodes G)"
proof -
  have "(map written ns = ns) = list_all leavesNoneOut ns" for ns
    by (induction ns) (auto simp: written_fixpoint)
  then have "(G\<lparr>raw_nodes := map written (raw_nodes G)\<rparr> = G) = list_all leavesNoneOut (raw_nodes G)"
    by (cases G) simp
  then show ?thesis by (simp add: writtenGraph_def)
qed

lemma leavesNoneOut_rawGraph: "list_all leavesNoneOut (raw_nodes (rawGraph g))"
  by (simp add: rawGraph_def list_all_iff leavesNoneOut_def rawNode_def)

text \<open>
  C6 as stated fails. The raw graph with the one node \<open>{id: k, a: {}, t: {}, edges: {}, c:
  Const}\<close>, which leaves out the optional \<open>x\<close>, \<open>y\<close> and \<open>out\<close>, comes back from the graph
  built from it with \<open>x\<close>, \<open>y\<close> and \<open>out\<close> written as \<open>undefined\<close>, which is not deep-equal to
  what went in; the node \<open>{id: k, c: Const}\<close> comes back with \<open>a\<close>, \<open>t\<close> and \<open>edges\<close> written
  as \<open>undefined\<close> too. \<open>loadGraph\<close> on an instance holding the empty graph returns the graph
  built. And from a raw graph with an edge whose consumer id is \<open>constructor\<close> no graph is
  built at all: the constructor throws.
\<close>

theorem load_save_writes_undefined:
  "Graph_constructor oneNodeRaw None = Inr oneNodeGraph
   \<and> rawGraph oneNodeGraph
       = \<lparr>raw_nodes = [INode ''k'' (Present (Some fmempty)) (Present (Some fmempty))
                          (Present (Some fmempty)) ''Const''
                          (Present None) (Present None) (Present None)],
          raw_edges = [], raw_comments = []\<rparr>
   \<and> rawGraph oneNodeGraph \<noteq> oneNodeRaw
   \<and> \<not> equalsRaw oneNodeGraph oneNodeRaw
   \<and> Graph_constructor bareRaw None = Inr bareGraph
   \<and> rawGraph bareGraph
       = \<lparr>raw_nodes = [INode ''k'' (Present None) (Present None) (Present None) ''Const''
                          (Present None) (Present None) (Present None)],
          raw_edges = [], raw_comments = []\<rparr>
   \<and> rawGraph bareGraph \<noteq> bareRaw
   \<and> Graph_constructor emptyRawGraph None = Inr emptyGraph
   \<and> loadGraph \<lparr>graph = Some emptyGraph, schema = \<lparr>components = []\<rparr>,
                 userFunctionStorage = fmempty, counter = 0\<rparr> oneNodeRaw
       = Inr (oneNodeGraph, \<lparr>graph = Some emptyGraph, schema = \<lparr>components = []\<rparr>,
                              userFunctionStorage = fmempty, counter = 0\<rparr>)
   \<and> Graph_constructor
       \<lparr>raw_nodes = [], raw_edges = [(''constructor'', ''in'', ''a'', ''out'')], raw_comments = []\<rparr> None
     = Inl TypeError"
  by (simp add: graph_eval rawGraph_def rawNode_def plainRawNode_def plainNode_def equalsRaw_def
      loadGraph_def emptyRawGraph_def emptyGraph_def oneNodeRaw_def oneNodeGraph_def
      bareRaw_def bareGraph_def bareRawNode_def)

text \<open>
  C6, as the code has it. The constructor builds a graph from every raw graph \<open>G\<close> but
  those with an edge whose consumer id is a name that every object inherits, on which it
  throws a \<open>TypeError\<close>. The raw form of the graph built is \<open>G\<close> with every node property
  that \<open>G\<close> leaves out written as \<open>undefined\<close>; it is deep-equal to \<open>G\<close> exactly when no
  node of \<open>G\<close> leaves out any of \<open>a\<close>, \<open>t\<close>, \<open>edges\<close>, \<open>x\<close>, \<open>y\<close> and \<open>out\<close>. \<open>loadGraph\<close>
  returns a graph with that raw form and leaves the instance as it is, or throws: on an
  instance whose \<open>graph\<close> field was never assigned, or when the constructor throws.
\<close>

theorem load_save_roundtrip:
  "(case Graph_constructor G None of
      Inl e \<Rightarrow> e = TypeError \<and> inheritedConsumer G
    | Inr g \<Rightarrow>
        \<not> inheritedConsumer G
        \<and> rawGraph g = writtenGraph G
        \<and> (rawGraph g = G) = list_all leavesNoneOut (raw_nodes G)
        \<and> equalsRaw g G = list_all leavesNoneOut (raw_nodes G))
   \<and> (case loadGraph this G of
        Inl e \<Rightarrow> e = TypeError \<and> (graph this = None \<or> inheritedConsumer G)
      | Inr (g, this') \<Rightarrow> rawGraph g = writtenGraph G \<and> this' = this)"
proof
  show "case Graph_constructor G None of
      Inl e \<Rightarrow> e = TypeError \<and> inheritedConsumer G
    | Inr g \<Rightarrow>
        \<not> inheritedConsumer G
        \<and> rawGraph g = writtenGraph G
        \<and> (rawGraph g = G) = list_all leavesNoneOut (raw_nodes G)
        \<and> equalsRaw g G = list_all leavesNoneOut (raw_nodes G)"
  proof (cases "Graph_constructor G None")
    case (Inl e)
    then show ?thesis by (simp add: Graph_constructor_cases split: if_splits)
  next
    case (Inr g)
    then have "rawGraph g = writtenGraph G" by (rule rawGraph_Graph_constructor)
    moreover have "\<not> inheritedConsumer G"
      using Inr by (simp add: Graph_constructor_cases split: if_splits)
    moreover have "(writtenGraph G = G) = list_all leavesNoneOut (raw_nodes G)"
      by (rule writtenGraph_fixpoint)
    moreover have "(G = writtenGraph G) = (writtenGraph G = G)"
      by (rule eq_commute)
    ultimately show ?thesis
      using Inr by (simp add: equalsRaw_def)
  qed
next
  show "case loadGraph this G of
        Inl e \<Rightarrow> e = TypeError \<and> (graph this = None \<or> inheritedConsumer G)
      | Inr (g, this') \<Rightarrow> rawGraph g = writtenGraph G \<and> this' = this"
  proof (cases "graph this")
    case None
    then show ?thesis by (simp add: loadGraph_def)
  next
    case (Some current)
    show ?thesis
    proof (cases "equalsRaw current G")
      case True
      then have "G = rawGraph current" by (simp add: equalsRaw_def)
      then have "writtenGraph G = G"
        by (simp add: writtenGraph_fixpoint leavesNoneOut_rawGraph)
      with True Some show ?thesis by (simp add: loadGraph_def equalsRaw_def)
    next
      case False
      show ?thesis
      proof (cases "Graph_constructor G None")
        case (Inl e)
        with False Some show ?thesis
          by (simp add: loadGraph_def Graph_constructor_cases split: if_splits)
      next
        case (Inr g)
        with False Some rawGraph_Graph_constructor [OF Inr] show ?thesis
          by (simp add: loadGraph_def)
      qed
    qed
  qed
qed

text \<open>
  C7, where the code departs from it. \<open>loadGraph\<close> builds the new graph (with both indices)
  and returns it, but never assigns it to \<open>this.graph\<close>. Already the constructor's own call
  \<open>this.loadGraph({nodes: [], edges: [], comments: []})\<close> reads \<open>this.graph.equalsRaw\<close> of the
  unassigned field and throws. And on an instance that holds the empty graph, loading the
  host example returns a new graph while the instance keeps the empty one: \<open>saveGraph\<close>
  still gives the empty raw graph.
\<close>

theorem loadGraph_does_not_store:
  "VAX_constructor sch = Inl TypeError
   \<and> Graph_constructor emptyRawGraph None = Inr emptyGraph
   \<and> Graph_constructor hostExample None = Inr hostGraph
   \<and> (let this = \<lparr>graph = Some emptyGraph, schema = sch,
                   userFunctionStorage = fmempty, counter = 0\<rparr>
      in loadGraph this hostExample = Inr (hostGraph, this)
         \<and> saveGraph this None = Inr emptyRawGraph
         \<and> emptyRawGraph \<noteq> hostExample)"
  by (simp add: VAX_constructor_def loadGraph_def saveGraph_def equalsRaw_def rawGraph_def
      graph_eval emptyRawGraph_def hostExample_def emptyGraph_def hostGraph_def plainRawNode_def
      plainNode_def)

lemma host_built: "Graph_constructor hostExample None = Inr hostGraph"
  by (simp add: graph_eval hostExample_def hostGraph_def plainRawNode_def plainNode_def)

lemma empty_built: "Graph_constructor emptyRawGraph None = Inr emptyGraph"
  by (simp add: graph_eval emptyRawGraph_def emptyGraph_def)

lemma oneNode_built: "Graph_constructor oneNodeRaw None = Inr oneNodeGraph"
  by (simp add: graph_eval oneNodeRaw_def oneNodeGraph_def plainRawNode_def plainNode_def)

section \<open>Mutations and the derived indices\<close>

text \<open>Tree composition reads the two indices and nothing else of the graph.\<close>

lemma composeTree_index_only:
  "nodesObject g' = nodesObject g \<Longrightarrow> nodeEdgesObject g' = nodeEdgesObject g \<Longrightarrow>
     composeTree g' node ps out = composeTree g node ps out"
  and composeEdges_index_only:
  "nodesObject g' = nodesObject g \<Longrightarrow> nodeEdgesObject g' = nodeEdgesObject g \<Longrightarrow>
     composeEdges g' ps es acc = composeEdges g ps es acc"
proof (induction g node ps out and g ps es acc rule: composeTree_composeEdges.induct)
  case (1 g node rawParentsIds out)
  show ?case
  proof (cases "node = Undefined \<or> list_ex (\<lambda>pid. pid = idOf node) rawParentsIds")
    case True
    then show ?thesis by (auto simp: composeTree.simps [of g'] composeTree.simps [of g])
  next
    case False
    then have a: "node \<noteq> Undefined" and b: "\<not> list_ex (\<lambda>pid. pid = idOf node) rawParentsIds"
      by simp_all
    show ?thesis
    proof (cases "propertyRead (nodeEdgesObject g) (keyOf (idOf node))")
      case (Own l)
      with a b 1(1) [OF a refl b refl Own 1(3) 1(4)] 1(4) show ?thesis
        by (simp add: composeTree.simps [of g'] composeTree.simps [of g] Let_def)
    next
      case (Inherited name)
      with a b 1(4) show ?thesis
        by (simp add: composeTree.simps [of g'] composeTree.simps [of g] Let_def)
    next
      case Undefined
      with a b 1(2) [OF a refl b refl Undefined 1(3) 1(4)] 1(4) show ?thesis
        by (simp add: composeTree.simps [of g'] composeTree.simps [of g] Let_def)
    qed
  qed
next
  case (2 g newParentsIds acc)
  then show ?case by simp
next
  case (3 g newParentsIds edgeData rest acc)
  then show ?case by (simp split: sum.split)
qed

lemma composeTreeWithRootNode_index_only:
  "nodesObject g' = nodesObject g \<Longrightarrow> nodeEdgesObject g' = nodeEdgesObject g \<Longrightarrow>
     composeTreeWithRootNode g' r = composeTreeWithRootNode g r"
  by (simp add: composeTreeWithRootNode_def composeTree_index_only [of g' g])

text \<open>
  C9. \<open>addNodes\<close>, \<open>addEdges\<close>, \<open>deleteNodes\<close> and \<open>deleteEdges\<close> change the \<open>nodes\<close> or the
  \<open>edges\<close> collection and nothing else: \<open>nodesObject\<close> and \<open>nodeEdgesObject\<close> stay as the
  constructor built them. So the queries that read the indices, \<open>getNodesByIds\<close> and tree
  composition, answer after a mutation exactly as they did before it.
\<close>

theorem mutations_leave_indices:
  "nodesObject (addNodes g ns) = nodesObject g \<and> nodeEdgesObject (addNodes g ns) = nodeEdgesObject g
   \<and> nodesObject (addEdges g es) = nodesObject g \<and> nodeEdgesObject (addEdges g es) = nodeEdgesObject g
   \<and> nodesObject (deleteNodes g nf) = nodesObject g \<and> nodeEdgesObject (deleteNodes g nf) = nodeEdgesObject g
   \<and> nodesObject (deleteEdges g ef) = nodesObject g \<and> nodeEdgesObject (deleteEdges g ef) = nodeEdgesObject g
   \<and> addNodes g ns = g\<lparr>nodes := nodes g @ ns\<rparr>
   \<and> addEdges g es = g\<lparr>edges := edges g @ es\<rparr>
   \<and> deleteNodes g nf = g\<lparr>nodes := nodes (deleteNodes g nf)\<rparr>
   \<and> deleteEdges g ef = g\<lparr>edges := edges (deleteEdges g ef)\<rparr>
   \<and> getNodesByIds (addNodes g ns) ids = getNodesByIds g ids
   \<and> getNodesByIds (deleteNodes g nf) ids = getNodesByIds g ids
   \<and> composeTreeWithRootNode (addNodes g ns) r = composeTreeWithRootNode g r
   \<and> composeTreeWithRootNode (addEdges g es) r = composeTreeWithRootNode g r
   \<and> composeTreeWithRootNode (deleteNodes g nf) r = composeTreeWithRootNode g r
   \<and> composeTreeWithRootNode (deleteEdges g ef) r = composeTreeWithRootNode g r"
proof -
  have idx: "nodesObject (addNodes g ns) = nodesObject g" "nodeEdgesObject (addNodes g ns) = nodeEdgesObject g"
    "nodesObject (addEdges g es) = nodesObject g" "nodeEdgesObject (addEdges g es) = nodeEdgesObject g"
    "nodesObject (deleteNodes g nf) = nodesObject g" "nodeEdgesObject (deleteNodes g nf) = nodeEdgesObject g"
    "nodesObject (deleteEdges g ef) = nodesObject g" "nodeEdgesObject (deleteEdges g ef) = nodeEdgesObject g"
    by (simp_all add: addNodes_def addEdges_def deleteNodes_def deleteEdges_def)
  have frame: "addNodes g ns = g\<lparr>nodes := nodes g @ ns\<rparr>"
    "addEdges g es = g\<lparr>edges := edges g @ es\<rparr>"
    "deleteNodes g nf = g\<lparr>nodes := nodes (deleteNodes g nf)\<rparr>"
    "deleteEdges g ef = g\<lparr>edges := edges (deleteEdges g ef)\<rparr>"
    by (simp_all add: addNodes_def addEdges_def deleteNodes_def deleteEdges_def)
  have byIds: "getNodesByIds (addNodes g ns) ids = getNodesByIds g ids"
    "getNodesByIds (deleteNodes g nf) ids = getNodesByIds g ids"
    by (simp_all add: getNodesByIds_def idx)
  have trees: "composeTreeWithRootNode (addNodes g ns) r = composeTreeWithRootNode g r"
    "composeTreeWithRootNode (addEdges g es) r = composeTreeWithRootNode g r"
    "composeTreeWithRootNode (deleteNodes g nf) r = composeTreeWithRootNode g r"
    "composeTreeWithRootNode (deleteEdges g ef) r = composeTreeWithRootNode g r"
    by (rule composeTreeWithRootNode_index_only; simp add: idx)+
  from idx frame byIds trees show ?thesis by blast
qed

section \<open>Looking nodes up by id\<close>

text \<open>The index \<open>nodesObject\<close> holds, under an id, the last node of the list with that id.\<close>

lemma find_app:
  "find P (xs @ ys) = (case find P xs of None \<Rightarrow> find P ys | Some v \<Rightarrow> Some v)"
  by (induction xs) simp_all

lemma lookup_foldl_nodes:
  "fmlookup (foldl (\<lambda>acc n. fmupd (node_id n) n acc) m ns) k
     = (case find (\<lambda>n. node_id n = k) (rev ns) of None \<Rightarrow> fmlookup m k | Some n \<Rightarrow> Some n)"
proof (induction ns arbitrary: m)
  case Nil
  then show ?case by simp
next
  case (Cons n ns)
  show ?case
    by (simp add: Cons.IH find_app split: option.split)
qed

lemma lookup_getNodesObject:
  "fmlookup (getNodesObject ns) k = find (\<lambda>n. node_id n = k) (rev ns)"
  by (simp add: getNodesObject_def lookup_foldl_nodes split: option.split)

text \<open>
  C8 as stated fails. On the graph built from the one node \<open>k\<close>, asked for the ids \<open>k\<close> and
  \<open>zz\<close>, \<open>getNodesByIds\<close> returns a two-element array whose second entry is \<open>undefined\<close>;
  asked for \<open>constructor\<close>, it returns the member \<open>constructor\<close> that the index inherits as
  an object. After \<open>addNodes\<close> has added a node \<open>z\<close>, the entry for \<open>z\<close> is \<open>undefined\<close>
  still, and after \<open>deleteNodes\<close> has removed every node, the entry for \<open>k\<close> is still the
  node \<open>k\<close>.
\<close>

theorem getNodesByIds_undefined_slot:
  "Graph_constructor oneNodeRaw None = Inr oneNodeGraph
   \<and> getNodesByIds oneNodeGraph [''k'', ''zz''] = [Own (plainNode ''k'' ''Const''), Undefined]
   \<and> getNodesByIds oneNodeGraph [''constructor''] = [Inherited ''constructor'']
   \<and> nodes (addNodes oneNodeGraph [plainNode ''z'' ''Const''])
       = [plainNode ''k'' ''Const'', plainNode ''z'' ''Const'']
   \<and> getNodesByIds (addNodes oneNodeGraph [plainNode ''z'' ''Const'']) [''z''] = [Undefined]
   \<and> nodes (deleteNodes oneNodeGraph everything) = []
   \<and> getNodesByIds (deleteNodes oneNodeGraph everything) [''k'']
       = [Own (plainNode ''k'' ''Const'')]"
  by (simp add: getNodesByIds_def graph_eval plainNode_def plainRawNode_def addNodes_def
      deleteNodes_def filterIndexed_def oneNodeRaw_def oneNodeGraph_def everything_def)

text \<open>
  C8, as the code has it. \<open>getNodesByIds\<close> returns one entry per given id, in the given
  order, read from the index \<open>nodesObject\<close> that the constructor built and that
  \<open>addNodes\<close>, \<open>addEdges\<close>, \<open>deleteNodes\<close> and \<open>deleteEdges\<close> leave as it is. The entry is
  the node with this id among the nodes the graph was constructed from (the last one,
  should several share it); where there is none, it is \<open>undefined\<close>, or, for an id that is a
  name every object inherits, the inherited member. No failure is signalled.
\<close>

theorem getNodesByIds_lookup:
  "(case Graph_constructor raw prefix of
      Inl e \<Rightarrow> e = TypeError \<and> inheritedConsumer raw
    | Inr g \<Rightarrow>
        getNodesByIds g ids
          = map (\<lambda>k. case find (\<lambda>n. node_id n = k)
                              (rev (map (\<lambda>r. Node_constructor r prefix) (raw_nodes raw))) of
                        Some n \<Rightarrow> Own n
                      | None \<Rightarrow> if k \<in> set inheritedNames then Inherited k else Undefined) ids
        \<and> getNodesByIds (addNodes g ns) ids = getNodesByIds g ids
        \<and> getNodesByIds (addEdges g es) ids = getNodesByIds g ids
        \<and> getNodesByIds (deleteNodes g nf) ids = getNodesByIds g ids
        \<and> getNodesByIds (deleteEdges g ef) ids = getNodesByIds g ids)"
  by (simp add: Graph_constructor_cases getNodesByIds_def propertyRead_def lookup_getNodesObject
      addNodes_def addEdges_def deleteNodes_def deleteEdges_def)

section \<open>Cloning with a prefix\<close>

text \<open>
  C3, where the code departs from it. The \<open>Node\<close> constructor prefixes the node id; the
  \<open>Edge\<close> constructor prefixes the two slot names and copies \<open>inputNodeId\<close> and
  \<open>outputNodeId\<close> as they are. Cloning the graph with the nodes \<open>a\<close>, \<open>b\<close> and the edge from
  \<open>b\<close> to \<open>a\<close> under the prefix \<open>p_\<close> gives the nodes \<open>p_a\<close>, \<open>p_b\<close> and an edge that still
  names \<open>a\<close> and \<open>b\<close>, which are not nodes of the clone; the clone's node \<open>p_a\<close> has no edge
  at all.
\<close>

theorem clone_edges_keep_old_ids:
  "(case Graph_constructor
           \<lparr>raw_nodes = [plainRawNode ''a'' ''Add'', plainRawNode ''b'' ''Const''],
            raw_edges = [(''a'', ''x'', ''b'', ''out'')], raw_comments = []\<rparr> None of
      Inl e \<Rightarrow> False
    | Inr g \<Rightarrow>
        (case Graph_clone g (Some ''p_'') of
           Inl e \<Rightarrow> False
         | Inr cl \<Rightarrow>
             map node_id (nodes cl) = [''p_a'', ''p_b'']
             \<and> map rawEdge (edges cl) = [(''a'', ''p_x'', ''b'', ''p_out'')]
             \<and> ''a'' \<notin> set (map node_id (nodes cl))
             \<and> ''b'' \<notin> set (map node_id (nodes cl))
             \<and> getEdges cl (plainNode ''p_a'' ''Add'') None = []
             \<and> fmlookup (nodeEdgesObject cl) ''p_a'' = None))"
  by (simp add: Graph_clone_def rawGraph_def rawNode_def rawEdge_def graph_eval plainNode_def
      plainRawNode_def getEdges_def)

text \<open>
  X1. What cloning does on every graph: node ids and edge slot names get the prefix; the
  attributes, types, positions and comments are copied; the clone's edges carry the node
  ids of the original, unprefixed, and no pending action; both indices are built anew.
  Cloning throws when an edge of the graph names an inherited name as its consumer.
\<close>

lemma comment_copy: "\<lparr>comment = comment (cm :: Comment)\<rparr> = cm"
  by simp

theorem clone_as_built:
  "(case Graph_clone g prefix of
      Inl e \<Rightarrow> e = TypeError \<and> list_ex (\<lambda>e. inputNodeId e \<in> set inheritedNames) (edges g)
    | Inr cl \<Rightarrow>
        nodes cl
          = map (\<lambda>n. Node (withPrefix prefix (node_id n)) (node_a n) (node_t n) (node_c n)
                            (node_edges n) (node_x n) (node_y n) (node_out n)) (nodes g)
        \<and> edges cl
          = map (\<lambda>e. \<lparr>inputNodeId = inputNodeId e, inputNode = None,
                       inputName = withPrefix prefix (inputName e),
                       outputNodeId = outputNodeId e, outputNode = None,
                       outputName = withPrefix prefix (outputName e), actions = []\<rparr>) (edges g)
        \<and> comments cl = comments g
        \<and> nodesObject cl = getNodesObject (nodes cl)
        \<and> getNodeEdgesObject (edges cl) = Inr (nodeEdgesObject cl))"
proof -
  have c: "inheritedConsumer (rawGraph g) = list_ex (\<lambda>e. inputNodeId e \<in> set inheritedNames) (edges g)"
    by (simp add: inheritedConsumer_def rawGraph_def rawEdge_def list_ex_iff)
  have e: "map (\<lambda>r. Edge_constructor r prefix None None) (raw_edges (rawGraph g))
      = map (\<lambda>e. \<lparr>inputNodeId = inputNodeId e, inputNode = None,
                       inputName = withPrefix prefix (inputName e),
                       outputNodeId = outputNodeId e, outputNode = None,
                       outputName = withPrefix prefix (outputName e), actions = []\<rparr>) (edges g)"
    by (simp add: rawGraph_def rawEdge_def Edge_constructor_def comp_def)
  have ex: "list_ex (\<lambda>e. inputNodeId e \<in> set inheritedNames)
       (map (\<lambda>e. \<lparr>inputNodeId = inputNodeId e, inputNode = None,
                       inputName = withPrefix prefix (inputName e),
                       outputNodeId = outputNodeId e, outputNode = None,
                       outputName = withPrefix prefix (outputName e), actions = []\<rparr>) (edges g))
      = list_ex (\<lambda>e. inputNodeId e \<in> set inheritedNames) (edges g)"
    by (simp add: list_ex_iff)
  show ?thesis
    by (simp add: Graph_clone_def Graph_constructor_cases c e ex getNodeEdgesObject_cases)
      (simp add: rawGraph_def comp_def Node_constructor_def rawNode_def destructured_def
        Comment_constructor_def rawComment_def comment_copy)
qed

section \<open>Composing trees\<close>

text \<open>
  C5. In the graph with the nodes \<open>root\<close>, \<open>p1\<close>, \<open>p2\<close> and the edges
  \<open>(root, x, p1, out)\<close> and \<open>(root, y, p2, out)\<close>, whatever else the three nodes carry, the
  tree composed from \<open>root\<close> is a copy of \<open>root\<close> whose \<open>edges\<close> has exactly the keys \<open>x\<close> and
  \<open>y\<close>, holding the trees composed from \<open>p1\<close> and \<open>p2\<close>; each of the two has \<open>out\<close> set to
  the producer slot \<open>out\<close> it was reached through, and the root has none.
\<close>

theorem composeTree_shape:
  "(let root = INode ''root'' a0 t0 e0 c0 x0 y0 o0;
        p1 = INode ''p1'' a1 t1 e1 c1 x1 y1 o1;
        p2 = INode ''p2'' a2 t2 e2 c2 x2 y2 o2;
        sub1 = Copy ''p1'' (destructured a1) (destructured t1) c1 fmempty
                 (destructured x1) (destructured y1) (Some ''out'');
        sub2 = Copy ''p2'' (destructured a2) (destructured t2) c2 fmempty
                 (destructured x2) (destructured y2) (Some ''out'');
        tree = Copy ''root'' (destructured a0) (destructured t0) c0
                 (fmupd ''y'' sub2 (fmupd ''x'' sub1 fmempty))
                 (destructured x0) (destructured y0) None
    in case Graph_constructor (threeNodeGraph root p1 p2) None of
         Inl e \<Rightarrow> False
       | Inr g \<Rightarrow>
           composeTreeWithRootNode g ''root'' = Inr tree
           \<and> composeTree g (Own (Node_constructor p1 None)) [Some ''root''] (Some ''out'') = Inr sub1
           \<and> composeTree g (Own (Node_constructor p2 None)) [Some ''root''] (Some ''out'') = Inr sub2
           \<and> fmdom (tree_edges tree) = {|''x'', ''y''|}
           \<and> fmlookup (tree_edges tree) ''x'' = Some sub1
           \<and> fmlookup (tree_edges tree) ''y'' = Some sub2
           \<and> tree_out sub1 = Some ''out'' \<and> tree_out sub2 = Some ''out'')"
  by (simp add: threeNodeGraph_def composeTreeWithRootNode_def graph_eval composeTree.simps
      idOf_def keyOf_def cloneWith_def finsert_commute)

text \<open>
  The indices of a graph as the constructor builds it: a node sits under its own id, and
  an edge descriptor listed under a consumer comes from an edge of the raw graph with that
  consumer. Along a path that \<open>composeTree\<close> expands, every ancestor therefore reaches the
  current node through edges of the raw graph, as long as every lookup of a producer gives
  a node.
\<close>

lemma nodesObject_key:
  "Graph_constructor raw prefix = Inr g \<Longrightarrow> fmlookup (nodesObject g) k = Some n \<Longrightarrow> node_id n = k"
  by (auto simp: Graph_constructor_cases lookup_getNodesObject find_Some_iff split: if_splits)

lemma nodesObject_dom:
  "Graph_constructor raw prefix = Inr g \<Longrightarrow> fmlookup (nodesObject g) k = None \<Longrightarrow>
     k \<notin> set (map (\<lambda>r. withPrefix prefix (inode_id r)) (raw_nodes raw))"
  by (auto simp: Graph_constructor_cases lookup_getNodesObject find_None_iff Node_constructor_def
      split: if_splits)

lemma producer_not_inherited:
  assumes "Graph_constructor raw prefix = Inr g" and "\<not> danglingInherited raw prefix"
    and "(k, p) \<in> consumesFrom raw"
  shows "propertyRead (nodesObject g) p \<noteq> Inherited name"
proof
  assume inh: "propertyRead (nodesObject g) p = Inherited name"
  then have none: "fmlookup (nodesObject g) p = None" and p: "p \<in> set inheritedNames"
    by (auto simp: propertyRead_def split: option.splits if_splits)
  from assms(1) none have "p \<notin> set (map (\<lambda>r. withPrefix prefix (inode_id r)) (raw_nodes raw))"
    by (rule nodesObject_dom)
  with p assms(3) have "danglingInherited raw prefix"
    unfolding danglingInherited_def consumesFrom_def list_ex_iff by force
  with assms(2) show False ..
qed

lemma foldl_edges_sound:
  assumes "\<And>k eos eo. fmlookup m k = Some eos \<Longrightarrow> eo \<in> set eos \<Longrightarrow> (k, eo_outputNodeId eo) \<in> E"
    and "\<And>e. e \<in> set es \<Longrightarrow> (inputNodeId e, outputNodeId e) \<in> E"
    and "fmlookup (indexOfEdges m es) k = Some eos"
    and "eo \<in> set eos"
  shows "(k, eo_outputNodeId eo) \<in> E"
  using assms
proof (induction es arbitrary: m)
  case Nil
  then show ?case by (simp add: indexOfEdges_def)
next
  case (Cons e es)
  let ?m' = "fmupd (inputNodeId e)
                ((case fmlookup m (inputNodeId e) of None \<Rightarrow> [] | Some l \<Rightarrow> l)
                 @ [\<lparr>eo_in = inputName e, eo_outputNodeId = outputNodeId e, eo_out = outputName e\<rparr>]) m"
  have step: "\<And>k eos eo. fmlookup ?m' k = Some eos \<Longrightarrow> eo \<in> set eos \<Longrightarrow> (k, eo_outputNodeId eo) \<in> E"
    using Cons.prems(1) Cons.prems(2) [of e]
    by (auto split: if_splits option.splits)
  have l: "fmlookup (indexOfEdges ?m' es) k = Some eos"
    using Cons.prems(3) by (simp add: indexOfEdges_def)
  show ?case
    by (rule Cons.IH [of ?m', OF step _ l]) (use Cons.prems in auto)
qed

lemma nodeEdgesObject_sound:
  assumes "Graph_constructor raw prefix = Inr g"
    and "fmlookup (nodeEdgesObject g) k = Some eos" and "eo \<in> set eos"
  shows "(k, eo_outputNodeId eo) \<in> consumesFrom raw"
proof (rule foldl_edges_sound [where m = fmempty and eos = eos
      and es = "map (\<lambda>r. Edge_constructor r prefix None None) (raw_edges raw)"])
  show "eo \<in> set eos" by fact
  show "fmlookup (indexOfEdges fmempty (map (\<lambda>r. Edge_constructor r prefix None None) (raw_edges raw))) k
          = Some eos"
    using assms(1,2) by (auto simp: Graph_constructor_cases split: if_splits)
next
  fix e assume "e \<in> set (map (\<lambda>r. Edge_constructor r prefix None None) (raw_edges raw))"
  then show "(inputNodeId e, outputNodeId e) \<in> consumesFrom raw"
    by (force simp: consumesFrom_def Edge_constructor_def split: prod.splits)
qed simp

lemma edges_read_sound:
  assumes "Graph_constructor raw prefix = Inr g"
    and "propertyRead (nodeEdgesObject g) k = Own eos" and "eo \<in> set eos"
  shows "(k, eo_outputNodeId eo) \<in> consumesFrom raw"
proof -
  from assms(2) have "fmlookup (nodeEdgesObject g) k = Some eos"
    by (auto simp: propertyRead_def split: option.splits if_splits)
  with assms(1) show ?thesis using assms(3) by (rule nodeEdgesObject_sound)
qed

lemma acyclic_no_cycle_error:
  fixes raw :: RawGraph and prefix :: "string option"
  defines "E \<equiv> consumesFrom raw"
  assumes ac: "acyclic (consumesFrom raw)" and nd: "\<not> danglingInherited raw prefix"
  shows "Graph_constructor raw prefix = Inr g \<Longrightarrow>
           (case node of
              Own n \<Rightarrow> \<forall>p. Some p \<in> set ps \<longrightarrow> (p, node_id n) \<in> E\<^sup>+
            | Inherited name \<Rightarrow> ps = []
            | Undefined \<Rightarrow> True)
          \<Longrightarrow> \<not> raisesCycleDetected (composeTree g node ps out)"
    and "Graph_constructor raw prefix = Inr g
          \<Longrightarrow> (\<And>eo. eo \<in> set es \<Longrightarrow> \<exists>k. (k, eo_outputNodeId eo) \<in> E)
          \<Longrightarrow> (\<And>p eo. Some p \<in> set ps' \<Longrightarrow> eo \<in> set es \<Longrightarrow> (p, eo_outputNodeId eo) \<in> E\<^sup>+)
          \<Longrightarrow> \<not> raisesCycleDetected (composeEdges g ps' es acc)"
proof (induction g node ps out and g ps' es acc rule: composeTree_composeEdges.induct)
  case (1 g node rawParentsIds out)
  show ?case
  proof (cases node)
    case Undefined
    then show ?thesis by (simp add: composeTree.simps [of g])
  next
    case (Inherited name)
    with 1(4) have ps: "rawParentsIds = []" by simp
    have a: "node \<noteq> Undefined" and b: "\<not> list_ex (\<lambda>pid. pid = idOf node) rawParentsIds"
      using Inherited ps by simp_all
    have new: "union_lodash rawParentsIds [idOf node] = [None]"
      using Inherited ps by (simp add: union_lodash_def idOf_def)
    show ?thesis
    proof (cases "propertyRead (nodeEdgesObject g) (keyOf (idOf node))")
      case (Own l)
      have "\<not> raisesCycleDetected (composeEdges g (union_lodash rawParentsIds [idOf node]) l fmempty)"
      proof (rule 1(1) [OF a refl b refl Own 1(3)])
        fix eo assume "eo \<in> set l"
        with 1(3) Own have "(keyOf (idOf node), eo_outputNodeId eo) \<in> E"
          unfolding E_def by (rule edges_read_sound)
        then show "\<exists>k. (k, eo_outputNodeId eo) \<in> E" ..
      next
        fix p eo assume "Some p \<in> set (union_lodash rawParentsIds [idOf node])"
        with new show "(p, eo_outputNodeId eo) \<in> E\<^sup>+" by simp
      qed
      with a b Own show ?thesis
        by (auto simp: composeTree.simps [of g] Let_def split: sum.splits)
    next
      case (Inherited name')
      with a b show ?thesis by (simp add: composeTree.simps [of g] Let_def)
    next
      case Undefined
      with a b show ?thesis by (simp add: composeTree.simps [of g] Let_def)
    qed
  next
    case (Own n)
    with 1(4) have reach: "\<And>p. Some p \<in> set rawParentsIds \<Longrightarrow> (p, node_id n) \<in> E\<^sup>+" by simp
    have idn: "idOf node = Some (node_id n)" using Own by (simp add: idOf_def)
    have notin: "Some (node_id n) \<notin> set rawParentsIds"
    proof
      assume "Some (node_id n) \<in> set rawParentsIds"
      then have "(node_id n, node_id n) \<in> E\<^sup>+" by (rule reach)
      with ac show False by (simp add: acyclic_def E_def)
    qed
    have a: "node \<noteq> Undefined" using Own by simp
    have b: "\<not> list_ex (\<lambda>pid. pid = idOf node) rawParentsIds"
      using notin by (auto simp: list_ex_iff idn)
    show ?thesis
    proof (cases "propertyRead (nodeEdgesObject g) (keyOf (idOf node))")
      case (Own l)
      have "\<not> raisesCycleDetected (composeEdges g (union_lodash rawParentsIds [idOf node]) l fmempty)"
      proof (rule 1(1) [OF a refl b refl Own 1(3)])
        fix eo assume "eo \<in> set l"
        with 1(3) Own have "(keyOf (idOf node), eo_outputNodeId eo) \<in> E"
          unfolding E_def by (rule edges_read_sound)
        then show "\<exists>k. (k, eo_outputNodeId eo) \<in> E" ..
      next
        fix p eo assume p: "Some p \<in> set (union_lodash rawParentsIds [idOf node])" and eo: "eo \<in> set l"
        from 1(3) Own eo have "(keyOf (idOf node), eo_outputNodeId eo) \<in> E"
          unfolding E_def by (rule edges_read_sound)
        then have edge: "(node_id n, eo_outputNodeId eo) \<in> E"
          by (simp add: idn keyOf_def)
        from p have "Some p \<in> set rawParentsIds \<or> p = node_id n"
          by (auto simp: union_lodash_def idn split: if_splits)
        then show "(p, eo_outputNodeId eo) \<in> E\<^sup>+"
        proof
          assume "Some p \<in> set rawParentsIds"
          then have "(p, node_id n) \<in> E\<^sup>+" by (rule reach)
          then show ?thesis using edge by (rule trancl.trancl_into_trancl)
        next
          assume "p = node_id n"
          with edge show ?thesis by blast
        qed
      qed
      with a b Own show ?thesis
        by (auto simp: composeTree.simps [of g] Let_def split: sum.splits)
    next
      case (Inherited name')
      with a b show ?thesis by (simp add: composeTree.simps [of g] Let_def)
    next
      case Undefined
      with a b show ?thesis by (simp add: composeTree.simps [of g] Let_def)
    qed
  qed
next
  case (2 g newParentsIds acc)
  then show ?case by simp
next
  case (3 g newParentsIds edgeData rest acc)
  define child where "child = propertyRead (nodesObject g) (eo_outputNodeId edgeData)"
  from 3(4) [of edgeData] obtain k where k: "(k, eo_outputNodeId edgeData) \<in> E" by auto
  have inv: "case child of
              Own n \<Rightarrow> \<forall>p. Some p \<in> set newParentsIds \<longrightarrow> (p, node_id n) \<in> E\<^sup>+
            | Inherited name \<Rightarrow> newParentsIds = []
            | Undefined \<Rightarrow> True"
  proof (cases child)
    case (Own n)
    then have "fmlookup (nodesObject g) (eo_outputNodeId edgeData) = Some n"
      by (auto simp: child_def propertyRead_def split: option.splits if_splits)
    with 3(3) have "node_id n = eo_outputNodeId edgeData" by (rule nodesObject_key)
    with Own 3(5) [of _ edgeData] show ?thesis by simp
  next
    case (Inherited name)
    with producer_not_inherited [OF 3(3) nd, of k "eo_outputNodeId edgeData" name] k
    show ?thesis by (simp add: child_def E_def)
  next
    case Undefined
    then show ?thesis by simp
  qed
  have first: "\<not> raisesCycleDetected (composeTree g child newParentsIds (Some (eo_out edgeData)))"
    unfolding child_def by (rule 3(1) [OF 3(3)]) (use inv in \<open>simp add: child_def\<close>)
  show ?case
  proof (cases "composeTree g child newParentsIds (Some (eo_out edgeData))")
    case (Inl e)
    with first show ?thesis by (simp add: child_def)
  next
    case (Inr sub)
    have "\<not> raisesCycleDetected (composeEdges g newParentsIds rest (fmupd (eo_in edgeData) sub acc))"
      using 3(2) [OF Inr [unfolded child_def] 3(3)] 3(4) 3(5) by simp
    with Inr show ?thesis by (simp add: child_def)
  qed
qed

lemma mapThrowing_no_cycle_error:
  "(\<And>v. \<not> raisesCycleDetected (f v)) \<Longrightarrow> \<not> raisesCycleDetected (mapThrowing f vs)"
proof (induction vs)
  case Nil
  then show ?case by simp
next
  case (Cons v vs)
  have tail: "\<not> raisesCycleDetected (mapThrowing f vs)"
    by (rule Cons.IH) (rule Cons.prems)
  have head: "\<not> raisesCycleDetected (f v)"
    by (rule Cons.prems)
  show ?case
  proof (cases "f v")
    case (Inl e)
    with head show ?thesis by simp
  next
    case (Inr r)
    with tail show ?thesis by (cases "mapThrowing f vs") simp_all
  qed
qed

lemma acyclic_root_no_cycle_error:
  assumes "acyclic (consumesFrom raw)" and "\<not> danglingInherited raw prefix"
    and "Graph_constructor raw prefix = Inr g"
  shows "\<not> raisesCycleDetected (composeTreeWithRootNode g rootNodeId)"
  unfolding composeTreeWithRootNode_def
  by (rule acyclic_no_cycle_error(1) [OF assms]) (simp split: lookup.split)

lemma cycle_error_names_chain:
  "composeTree g node ps out = Inl (CycleDetected n chain) \<Longrightarrow> n \<in> set chain \<and> set ps \<subseteq> set chain"
  "composeEdges g ps' es acc = Inl (CycleDetected n chain) \<Longrightarrow> n \<in> set chain \<and> set ps' \<subseteq> set chain"
proof (induction g node ps out and g ps' es acc rule: composeTree_composeEdges.induct)
  case (1 g node rawParentsIds out)
  show ?case
  proof (cases "node = Undefined")
    case True
    with 1(3) show ?thesis by (simp add: composeTree.simps [of g])
  next
    case a: False
    show ?thesis
    proof (cases "list_ex (\<lambda>pid. pid = idOf node) rawParentsIds")
      case True
      with a 1(3) show ?thesis by (auto simp: composeTree.simps [of g] list_ex_iff)
    next
      case b: False
      have sub: "set rawParentsIds \<subseteq> set (union_lodash rawParentsIds [idOf node])"
        by (auto simp: union_lodash_def)
      show ?thesis
      proof (cases "propertyRead (nodeEdgesObject g) (keyOf (idOf node))")
        case (Own l)
        with a b 1(3) have "composeEdges g (union_lodash rawParentsIds [idOf node]) l fmempty
            = Inl (CycleDetected n chain)"
          by (auto simp: composeTree.simps [of g] Let_def split: sum.splits)
        then have "n \<in> set chain \<and> set (union_lodash rawParentsIds [idOf node]) \<subseteq> set chain"
          by (rule 1(1) [OF a refl b refl Own])
        with sub show ?thesis by blast
      next
        case (Inherited name)
        with a b 1(3) show ?thesis by (simp add: composeTree.simps [of g] Let_def)
      next
        case Undefined
        with a b 1(3) show ?thesis by (simp add: composeTree.simps [of g] Let_def)
      qed
    qed
  qed
next
  case (2 g newParentsIds acc)
  then show ?case by simp
next
  case (3 g newParentsIds edgeData rest acc)
  show ?case
  proof (cases "composeTree g (propertyRead (nodesObject g) (eo_outputNodeId edgeData))
                  newParentsIds (Some (eo_out edgeData))")
    case (Inl e)
    with 3(3) have "composeTree g (propertyRead (nodesObject g) (eo_outputNodeId edgeData))
        newParentsIds (Some (eo_out edgeData)) = Inl (CycleDetected n chain)" by simp
    then show ?thesis by (rule 3(1))
  next
    case (Inr sub)
    with 3(3) have "composeEdges g newParentsIds rest (fmupd (eo_in edgeData) sub acc)
        = Inl (CycleDetected n chain)" by simp
    then show ?thesis by (rule 3(2) [OF Inr])
  qed
qed

lemma acyclic_acyclicExample: "acyclic (consumesFrom acyclicExample)"
proof -
  have "(x, y) \<in> {(''root'', ''p1''), (''root'', ''p2'')}\<^sup>+ \<Longrightarrow> x = ''root'' \<and> y \<noteq> ''root''" for x y :: string
    by (induction rule: trancl.induct) auto
  then show ?thesis
    by (auto simp: acyclic_def consumesFrom_def acyclicExample_def threeNodeGraph_def)
qed

lemma acyclic_jump: "acyclic (consumesFrom jumpRaw)"
proof -
  have "(x, y) \<in> {(''A'', ''constructor''), (''undefined'', ''A'')}\<^sup>+ \<Longrightarrow>
          (x = ''A'' \<and> y = ''constructor'') \<or> (x = ''undefined'' \<and> y \<noteq> ''undefined'')" for x y :: string
    by (induction rule: trancl.induct) auto
  then show ?thesis
    by (auto simp: acyclic_def consumesFrom_def jumpRaw_def)
qed

text \<open>
  C4 as stated fails. An error on a repeated id is thrown on graphs without a cycle.
  In the two-node graph where \<open>A\<close> consumes from \<open>B\<close> and \<open>B\<close> from \<open>A\<close>, \<open>deleteEdges\<close> can
  remove every edge, and composing from \<open>A\<close> still throws it, as composition reads the index
  of the edges that the constructor built. And in the graph built from the node \<open>A\<close> and the
  edges \<open>(A, in, constructor, out)\<close> and \<open>(undefined, in, A, out)\<close>, which form no cycle,
  composing from \<open>A\<close> throws it: the lookup of the producer \<open>constructor\<close> gives the member
  that the index inherits, whose \<open>id\<close> is \<open>undefined\<close>, so that the edges listed under the key
  \<open>undefined\<close> are followed next, back to \<open>A\<close>.
\<close>

theorem cycle_error_without_cycle:
  "Graph_constructor (twoNodeCycle (plainRawNode ''A'' ''Add'') (plainRawNode ''B'' ''Add'')) None
     = Inr cycleGraph
   \<and> edges (deleteEdges cycleGraph everything) = []
   \<and> composeTreeWithRootNode (deleteEdges cycleGraph everything) ''A''
       = Inl (CycleDetected (Some ''A'') [Some ''A'', Some ''B''])
   \<and> acyclic (consumesFrom jumpRaw)
   \<and> Graph_constructor jumpRaw None = Inr jumpGraph
   \<and> composeTreeWithRootNode jumpGraph ''A''
       = Inl (CycleDetected (Some ''A'') [Some ''A'', None])"
proof (intro conjI)
  show "acyclic (consumesFrom jumpRaw)"
    by (rule acyclic_jump)
qed (simp_all add: twoNodeCycle_def plainRawNode_def plainNode_def composeTreeWithRootNode_def
    graph_eval composeTree.simps idOf_def keyOf_def cloneWith_def deleteEdges_def
    filterIndexed_def cycleGraph_def jumpRaw_def jumpGraph_def everything_def)

lemma cycle_at_A:
  "(case Graph_constructor
           (twoNodeCycle (INode ''A'' a0 t0 e0 c0 x0 y0 o0) (INode ''B'' a1 t1 e1 c1 x1 y1 o1)) None of
      Inl e \<Rightarrow> False
    | Inr g \<Rightarrow>
        composeTreeWithRootNode g ''A'' = Inl (CycleDetected (Some ''A'') [Some ''A'', Some ''B''])
        \<and> composeTreeWithRootNode g ''B'' = Inl (CycleDetected (Some ''B'') [Some ''B'', Some ''A'']))"
  by (simp add: twoNodeCycle_def composeTreeWithRootNode_def graph_eval composeTree.simps
      idOf_def keyOf_def cloneWith_def)

text \<open>
  C4, as the code has it. Composing a tree throws the cycle error exactly when the id of
  the node it is about to expand is already among the ids of its ancestors, and the error
  carries that id and the chain. In the two-node graph where \<open>A\<close> consumes from \<open>B\<close> and
  \<open>B\<close> from \<open>A\<close>, composing from \<open>A\<close> and from \<open>B\<close> throws it. On a graph as the constructor
  built it, from a raw graph whose edges form no cycle and none of whose edges names as
  its producer an inherited name that is not the id of a node, neither
  \<open>composeTreeWithRootNode\<close> nor \<open>composeTrees\<close> ever throws it.
\<close>

theorem cycle_detection:
  "(case Graph_constructor
           (twoNodeCycle (INode ''A'' a0 t0 e0 c0 x0 y0 o0) (INode ''B'' a1 t1 e1 c1 x1 y1 o1)) None of
      Inl e \<Rightarrow> False
    | Inr g \<Rightarrow>
        composeTreeWithRootNode g ''A'' = Inl (CycleDetected (Some ''A'') [Some ''A'', Some ''B''])
        \<and> composeTreeWithRootNode g ''B'' = Inl (CycleDetected (Some ''B'') [Some ''B'', Some ''A'']))
   \<and> (Graph_constructor raw prefix = Inr built \<and> acyclic (consumesFrom raw)
        \<and> \<not> danglingInherited raw prefix \<longrightarrow>
        \<not> raisesCycleDetected (composeTreeWithRootNode built rootNodeId)
        \<and> \<not> raisesCycleDetected (composeTrees built))
   \<and> (node \<noteq> Undefined \<and> idOf node \<in> set ps \<longrightarrow>
        composeTree g node ps out = Inl (CycleDetected (idOf node) ps))
   \<and> (composeTree g node ps out = Inl (CycleDetected n chain) \<longrightarrow> n \<in> set chain \<and> set ps \<subseteq> set chain)"
proof (intro conjI impI)
  assume a: "Graph_constructor raw prefix = Inr built \<and> acyclic (consumesFrom raw)
        \<and> \<not> danglingInherited raw prefix"
  then show "\<not> raisesCycleDetected (composeTreeWithRootNode built rootNodeId)"
    by (intro acyclic_root_no_cycle_error [of raw prefix]) simp_all
  show "\<not> raisesCycleDetected (composeTrees built)"
    unfolding composeTrees_def
    by (rule mapThrowing_no_cycle_error) (use a in \<open>intro acyclic_root_no_cycle_error [of raw prefix]; simp\<close>)
next
  assume "node \<noteq> Undefined \<and> idOf node \<in> set ps"
  then show "composeTree g node ps out = Inl (CycleDetected (idOf node) ps)"
    by (simp add: composeTree.simps [of g] list_ex_iff)
next
  assume "composeTree g node ps out = Inl (CycleDetected n chain)"
  then show "n \<in> set chain" "set ps \<subseteq> set chain"
    using cycle_error_names_chain(1) by blast+
qed (rule cycle_at_A)

theorem cycle_detection_witness:
  "(case Graph_constructor acyclicExample None of
      Inl e \<Rightarrow> False
    | Inr built \<Rightarrow>
        acyclic (consumesFrom acyclicExample)
        \<and> \<not> danglingInherited acyclicExample None
        \<and> \<not> raisesCycleDetected (composeTreeWithRootNode built ''root'')
        \<and> \<not> raisesCycleDetected (composeTrees built)
        \<and> Own (plainNode ''A'' ''Add'') \<noteq> Undefined
        \<and> idOf (Own (plainNode ''A'' ''Add'')) \<in> set [Some ''B'', Some ''A'']
        \<and> composeTree built (Own (plainNode ''A'' ''Add'')) [Some ''B'', Some ''A''] None
            = Inl (CycleDetected (Some ''A'') [Some ''B'', Some ''A''])
        \<and> Some ''A'' \<in> set [Some ''B'', Some ''A''])"
proof (cases "Graph_constructor acyclicExample None")
  case (Inl e)
  then show ?thesis
    by (simp add: Graph_constructor_cases inheritedConsumer_def acyclicExample_def
        threeNodeGraph_def inheritedNames_def)
next
  case (Inr built)
  have nd: "\<not> danglingInherited acyclicExample None"
    by (simp add: danglingInherited_def acyclicExample_def threeNodeGraph_def inheritedNames_def)
  have i: "idOf (Own (plainNode ''A'' ''Add'')) = Some ''A''"
    by (simp add: idOf_def plainNode_def)
  from cycle_detection [of Absent Absent Absent "''Add''" Absent Absent Absent
      Absent Absent Absent "''Add''" Absent Absent Absent acyclicExample None built "''root''"
      "Own (plainNode ''A'' ''Add'')" "[Some ''B'', Some ''A'']" built None "Some ''A''"
      "[Some ''B'', Some ''A'']"]
    Inr nd acyclic_acyclicExample i
  show ?thesis by simp
qed

section \<open>Inlining user functions\<close>

text \<open>
  C1, where the code departs from it. \<open>evaluateUserFunctionNode\<close> looks the function up in
  \<open>userFunctionStorage\<close> and then does not use what it found: it clones \<open>graph\<close>, the host
  graph it was given. On the host example, whatever the storage holds, the nodes and edges
  spliced in are prefixed copies of the host's own nodes and edges, the call node \<open>call\<close>
  among them.
\<close>

theorem evaluateUserFunctionNode_clones_host:
  "Graph_constructor hostExample None = Inr hostGraph
   \<and> (case evaluateUserFunctionNode
              \<lparr>graph = Some hostGraph, schema = sch, userFunctionStorage = storage, counter = 0\<rparr>
              (plainNode ''call'' ''F'') hostGraph of
         Inl e \<Rightarrow> False
       | Inr (this', g') \<Rightarrow>
           rawGraph g'
             = \<lparr>raw_nodes = map rawNode
                              [plainNode ''k'' ''Const'', plainNode ''s'' ''Sink'',
                               plainNode ''uf_0_k'' ''Const'', plainNode ''uf_0_call'' ''F'',
                               plainNode ''uf_0_s'' ''Sink''],
                raw_edges = [(''call'', ''In1'', ''k'', ''out''), (''s'', ''v'', ''call'', ''Out1''),
                             (''call'', ''uf_0_In1'', ''k'', ''uf_0_out''),
                             (''s'', ''uf_0_v'', ''call'', ''uf_0_Out1'')],
                raw_comments = []\<rparr>)"
  by code_simp

text \<open>
  Cloning throws exactly when an edge of the graph names an inherited name as its
  consumer, and then \<open>evaluateUserFunctionNode\<close> throws. The passes never bring such an edge
  in: the consumer ids of all edges they write are consumer ids of edges that were there.
\<close>

lemma cloneable_iff: "cloneable g = (\<forall>e\<in>set (edges g). inputNodeId e \<notin> set inheritedNames)"
  by (simp add: cloneable_def list_ex_iff)

lemma Graph_clone_cases:
  "Graph_clone g prefix
     = (if cloneable g
        then Inr \<lparr>nodes = map (\<lambda>n. Node_constructor (rawNode n) prefix) (nodes g),
                  edges = map (\<lambda>e. Edge_constructor (rawEdge e) prefix None None) (edges g),
                  comments = map (\<lambda>c. Comment_constructor (rawComment c)) (comments g),
                  nodesObject = getNodesObject (map (\<lambda>n. Node_constructor (rawNode n) prefix) (nodes g)),
                  nodeEdgesObject =
                    indexOfEdges fmempty
                      (map (\<lambda>e. Edge_constructor (rawEdge e) prefix None None) (edges g))\<rparr>
        else Inl TypeError)"
proof -
  have "inheritedConsumer (rawGraph g) = (\<not> cloneable g)"
    by (simp add: inheritedConsumer_def rawGraph_def rawEdge_def list_ex_iff cloneable_def)
  then show ?thesis
    by (simp add: Graph_clone_def Graph_constructor_cases rawGraph_def comp_def)
qed

lemma filterIndexed_ignoring_index:
  "filterIndexed (\<lambda>v i. q v) xs = filter q xs"
proof -
  have "length xs = length ys \<Longrightarrow> map fst (filter (\<lambda>(v, i). q v) (zip xs ys)) = filter q xs"
    for ys :: "nat list"
    by (induction xs ys rule: list_induct2) simp_all
  then show ?thesis by (simp add: filterIndexed_def)
qed

lemma nodes_inner_redirect:
  "nodes (fst (foldl (\<lambda>(g', cl') j. (g'\<lparr>edges := eu g' cl' j\<rparr>, cl'\<lparr>edges := cu g' cl' j\<rparr>)) gc js)) = nodes (fst gc)
   \<and> nodes (snd (foldl (\<lambda>(g', cl') j. (g'\<lparr>edges := eu g' cl' j\<rparr>, cl'\<lparr>edges := cu g' cl' j\<rparr>)) gc js)) = nodes (snd gc)"
  by (induction js arbitrary: gc) (simp_all add: case_prod_beta)

lemma update_keeps:
  assumes "\<forall>e\<in>set xs. P e" and "i < length xs \<Longrightarrow> P v"
  shows "\<forall>e\<in>set (xs[i := v]). P e"
proof (cases "i < length xs")
  case True
  with assms show ?thesis
    using set_update_subset_insert [of xs i v] by auto
next
  case False
  then have "length xs \<le> i" by simp
  then have "xs[i := v] = xs" by (rule list_update_beyond)
  with assms(1) show ?thesis by simp
qed

lemma inner_input_consumers:
  assumes "\<forall>j\<in>set js. j < length (edges (snd gc))"
    and "cloneable (fst gc)" and "cloneable (snd gc)"
  shows "cloneable (fst (foldl (\<lambda>(g', cl') j.
                      (g'\<lparr>edges := (edges g')[i := (edges g' ! i)
                             \<lparr>inputName := inputName (edges cl' ! j),
                              inputNodeId := inputNodeId (edges cl' ! j)\<rparr>]\<rparr>,
                       cl'\<lparr>edges := (edges cl')[j := (edges cl' ! j)
                             \<lparr>actions := actions (edges cl' ! j) @ [''toDelete'']\<rparr>]\<rparr>)) gc js))
       \<and> cloneable (snd (foldl (\<lambda>(g', cl') j.
                      (g'\<lparr>edges := (edges g')[i := (edges g' ! i)
                             \<lparr>inputName := inputName (edges cl' ! j),
                              inputNodeId := inputNodeId (edges cl' ! j)\<rparr>]\<rparr>,
                       cl'\<lparr>edges := (edges cl')[j := (edges cl' ! j)
                             \<lparr>actions := actions (edges cl' ! j) @ [''toDelete'']\<rparr>]\<rparr>)) gc js))"
  using assms
proof (induction js arbitrary: gc)
  case Nil
  then show ?case by simp
next
  case (Cons j js)
  obtain g' cl' where gc: "gc = (g', cl')" by (cases gc)
  from Cons.prems gc have j: "j < length (edges cl')" by simp
  with Cons.prems(3) gc have nj: "inputNodeId (edges cl' ! j) \<notin> set inheritedNames"
    by (simp add: cloneable_iff)
  have a: "cloneable (g'\<lparr>edges := (edges g')[i := (edges g' ! i)
                             \<lparr>inputName := inputName (edges cl' ! j),
                              inputNodeId := inputNodeId (edges cl' ! j)\<rparr>]\<rparr>)"
    using Cons.prems(2) gc nj
    by (simp add: cloneable_iff) (rule update_keeps; simp)
  have b: "cloneable (cl'\<lparr>edges := (edges cl')[j := (edges cl' ! j)
                             \<lparr>actions := actions (edges cl' ! j) @ [''toDelete'']\<rparr>]\<rparr>)"
    using Cons.prems(3) gc nj j
    by (simp add: cloneable_iff) (rule update_keeps; simp)
  show ?case
    unfolding gc foldl_Cons prod.case
    by (rule Cons.IH) (use Cons.prems gc a b in simp_all)
qed

lemma inner_output_consumers:
  assumes "\<forall>j\<in>set js. j < length (edges (snd gc))"
    and "cloneable (fst gc)" and "cloneable (snd gc)"
  shows "cloneable (fst (foldl (\<lambda>(g', cl') j.
                      (g'\<lparr>edges := (edges g')[i := (edges g' ! i)
                             \<lparr>outputName := outputName (edges cl' ! j),
                              outputNodeId := outputNodeId (edges cl' ! j)\<rparr>]\<rparr>,
                       cl'\<lparr>edges := (edges cl')[j := (edges cl' ! j)
                             \<lparr>actions := actions (edges cl' ! j) @ [''toDelete'']\<rparr>]\<rparr>)) gc js))
       \<and> cloneable (snd (foldl (\<lambda>(g', cl') j.
                      (g'\<lparr>edges := (edges g')[i := (edges g' ! i)
                             \<lparr>outputName := outputName (edges cl' ! j),
                              outputNodeId := outputNodeId (edges cl' ! j)\<rparr>]\<rparr>,
                       cl'\<lparr>edges := (edges cl')[j := (edges cl' ! j)
                             \<lparr>actions := actions (edges cl' ! j) @ [''toDelete'']\<rparr>]\<rparr>)) gc js))"
  using assms
proof (induction js arbitrary: gc)
  case Nil
  then show ?case by simp
next
  case (Cons j js)
  obtain g' cl' where gc: "gc = (g', cl')" by (cases gc)
  from Cons.prems gc have j: "j < length (edges cl')" by simp
  with Cons.prems(3) gc have nj: "inputNodeId (edges cl' ! j) \<notin> set inheritedNames"
    by (simp add: cloneable_iff)
  have a: "cloneable (g'\<lparr>edges := (edges g')[i := (edges g' ! i)
                             \<lparr>outputName := outputName (edges cl' ! j),
                              outputNodeId := outputNodeId (edges cl' ! j)\<rparr>]\<rparr>)"
    using Cons.prems(2) gc
    by (simp add: cloneable_iff) (rule update_keeps; simp)
  have b: "cloneable (cl'\<lparr>edges := (edges cl')[j := (edges cl' ! j)
                             \<lparr>actions := actions (edges cl' ! j) @ [''toDelete'']\<rparr>]\<rparr>)"
    using Cons.prems(3) gc nj j
    by (simp add: cloneable_iff) (rule update_keeps; simp)
  show ?case
    unfolding gc foldl_Cons prod.case
    by (rule Cons.IH) (use Cons.prems gc a b in simp_all)
qed

lemma indicesWhere_bound: "\<forall>j\<in>set (indicesWhere p xs). j < length xs"
  by (simp add: indicesWhere_def)

lemma findThrowing_isMarker:
  "list_all (\<lambda>n. node_a n \<noteq> None) ns \<Longrightarrow> \<exists>r. findThrowing (isMarker markerType name) ns = Inr r"
  by (induction ns) (auto simp: isMarker_def)

text \<open>The invariant of the two loops over the edges of the call node: neither the host
  graph nor the clone has an edge with an inherited consumer id, and every node of the
  clone has an \<open>a\<close>.\<close>

lemma redirectInput_returns:
  assumes "cloneable (fst gc)" and "cloneable (snd gc)" and "attributed (snd gc)"
  shows "\<exists>gc'. redirectInput gc i = Inr gc'
           \<and> cloneable (fst gc') \<and> cloneable (snd gc')
           \<and> nodes (fst gc') = nodes (fst gc) \<and> nodes (snd gc') = nodes (snd gc)"
proof -
  obtain g cl where gc: "gc = (g, cl)" by (cases gc)
  from assms(3) gc obtain r
    where r: "findThrowing (isMarker ''UF_Input'' (inputName (edges g ! i))) (nodes cl) = Inr r"
    using findThrowing_isMarker [of "nodes cl"] by (auto simp: attributed_def)
  show ?thesis
  proof (cases r)
    case None
    with r gc assms show ?thesis by (simp add: redirectInput_def)
  next
    case (Some marker)
    define gc' where "gc' = foldl (\<lambda>(g', cl') j.
                      (g'\<lparr>edges := (edges g')[i := (edges g' ! i)
                             \<lparr>inputName := inputName (edges cl' ! j),
                              inputNodeId := inputNodeId (edges cl' ! j)\<rparr>]\<rparr>,
                       cl'\<lparr>edges := (edges cl')[j := (edges cl' ! j)
                             \<lparr>actions := actions (edges cl' ! j) @ [''toDelete'']\<rparr>]\<rparr>))
                   (g, cl)
                   (indicesWhere (\<lambda>e. inputNodeId e = node_id marker) (edges cl))"
    have res: "redirectInput gc i = Inr gc'"
      using r Some gc by (simp add: redirectInput_def gc'_def)
    have c: "cloneable (fst gc') \<and> cloneable (snd gc')"
      unfolding gc'_def
      by (rule inner_input_consumers) (use assms gc in \<open>simp_all add: indicesWhere_bound\<close>)
    have n: "nodes (fst gc') = nodes (fst (g, cl)) \<and> nodes (snd gc') = nodes (snd (g, cl))"
      unfolding gc'_def by (rule nodes_inner_redirect)
    from res c n gc show ?thesis by simp
  qed
qed

lemma redirectOutput_returns:
  assumes "cloneable (fst gc)" and "cloneable (snd gc)" and "attributed (snd gc)"
  shows "\<exists>gc'. redirectOutput gc i = Inr gc'
           \<and> cloneable (fst gc') \<and> cloneable (snd gc')
           \<and> nodes (fst gc') = nodes (fst gc) \<and> nodes (snd gc') = nodes (snd gc)"
proof -
  obtain g cl where gc: "gc = (g, cl)" by (cases gc)
  from assms(3) gc obtain r
    where r: "findThrowing (isMarker ''UF_Output'' (outputName (edges g ! i))) (nodes cl) = Inr r"
    using findThrowing_isMarker [of "nodes cl"] by (auto simp: attributed_def)
  show ?thesis
  proof (cases r)
    case None
    with r gc assms show ?thesis by (simp add: redirectOutput_def)
  next
    case (Some marker)
    define gc' where "gc' = foldl (\<lambda>(g', cl') j.
                      (g'\<lparr>edges := (edges g')[i := (edges g' ! i)
                             \<lparr>outputName := outputName (edges cl' ! j),
                              outputNodeId := outputNodeId (edges cl' ! j)\<rparr>]\<rparr>,
                       cl'\<lparr>edges := (edges cl')[j := (edges cl' ! j)
                             \<lparr>actions := actions (edges cl' ! j) @ [''toDelete'']\<rparr>]\<rparr>))
                   (g, cl)
                   (indicesWhere (\<lambda>e. outputNodeId e = node_id marker) (edges cl))"
    have res: "redirectOutput gc i = Inr gc'"
      using r Some gc by (simp add: redirectOutput_def gc'_def)
    have c: "cloneable (fst gc') \<and> cloneable (snd gc')"
      unfolding gc'_def
      by (rule inner_output_consumers) (use assms gc in \<open>simp_all add: indicesWhere_bound\<close>)
    have n: "nodes (fst gc') = nodes (fst (g, cl)) \<and> nodes (snd gc') = nodes (snd (g, cl))"
      unfolding gc'_def by (rule nodes_inner_redirect)
    from res c n gc show ?thesis by simp
  qed
qed

lemma redirectInputs_return:
  "cloneable (fst gc) \<Longrightarrow> cloneable (snd gc) \<Longrightarrow> attributed (snd gc) \<Longrightarrow>
     \<exists>gc'. reduceThrowing redirectInput is gc = Inr gc'
           \<and> cloneable (fst gc') \<and> cloneable (snd gc')
           \<and> nodes (fst gc') = nodes (fst gc) \<and> nodes (snd gc') = nodes (snd gc)"
proof (induction "is" arbitrary: gc)
  case Nil
  then show ?case by simp
next
  case (Cons i "is")
  from redirectInput_returns [OF Cons.prems, of i] obtain gc1
    where step: "redirectInput gc i = Inr gc1" "cloneable (fst gc1)" "cloneable (snd gc1)"
      "nodes (fst gc1) = nodes (fst gc)" "nodes (snd gc1) = nodes (snd gc)"
    by blast
  from Cons.prems(3) step(5) have "attributed (snd gc1)" by (simp add: attributed_def)
  from Cons.IH [OF step(2,3) this] step show ?case by auto
qed

lemma redirectOutputs_return:
  "cloneable (fst gc) \<Longrightarrow> cloneable (snd gc) \<Longrightarrow> attributed (snd gc) \<Longrightarrow>
     \<exists>gc'. reduceThrowing redirectOutput is gc = Inr gc'
           \<and> cloneable (fst gc') \<and> cloneable (snd gc')
           \<and> nodes (fst gc') = nodes (fst gc) \<and> nodes (snd gc') = nodes (snd gc)"
proof (induction "is" arbitrary: gc)
  case Nil
  then show ?case by simp
next
  case (Cons i "is")
  from redirectOutput_returns [OF Cons.prems, of i] obtain gc1
    where step: "redirectOutput gc i = Inr gc1" "cloneable (fst gc1)" "cloneable (snd gc1)"
      "nodes (fst gc1) = nodes (fst gc)" "nodes (snd gc1) = nodes (snd gc)"
    by blast
  from Cons.prems(3) step(5) have "attributed (snd gc1)" by (simp add: attributed_def)
  from Cons.IH [OF step(2,3) this] step show ?case by auto
qed

lemma set_filterIndexed: "set (filterIndexed p xs) \<subseteq> set xs"
  by (auto simp: filterIndexed_def dest: set_zip_leftD)

lemma cloneable_deleteEdges: "cloneable g \<Longrightarrow> cloneable (deleteEdges g f)"
  using set_filterIndexed by (fastforce simp: cloneable_iff deleteEdges_def)

text \<open>
  What a call of \<open>evaluateUserFunctionNode\<close> leaves in the host graph, on every input: the
  host's nodes but the call node, followed by the clone's nodes but its markers, where
  the clone is the clone of the host graph.
\<close>

lemma evaluateUserFunctionNode_throws:
  "\<not> cloneable g \<Longrightarrow> evaluateUserFunctionNode this node g = Inl TypeError"
  by (simp add: evaluateUserFunctionNode_def Let_def Graph_clone_cases)

lemma evaluateUserFunctionNode_returns:
  assumes "cloneable g" and "attributed g"
  shows "\<exists>g'. evaluateUserFunctionNode this node g = Inr (this\<lparr>counter := counter this + 1\<rparr>, g')
           \<and> cloneable g' \<and> attributed g'
           \<and> nodes g' = filter (\<lambda>n. node_id n \<noteq> node_id node) (nodes g)
               @ filter (\<lambda>n. take 3 (node_c n) \<noteq> ''UF_'')
                   (map (\<lambda>n. Node_constructor (rawNode n)
                                (Some (''uf_'' @ numberToString (counter this) @ ''_''))) (nodes g))"
proof -
  define prefix where "prefix = Some (''uf_'' @ numberToString (counter this) @ ''_'')"
  define cl where "cl = \<lparr>nodes = map (\<lambda>n. Node_constructor (rawNode n) prefix) (nodes g),
                  edges = map (\<lambda>e. Edge_constructor (rawEdge e) prefix None None) (edges g),
                  comments = map (\<lambda>c. Comment_constructor (rawComment c)) (comments g),
                  nodesObject = getNodesObject (map (\<lambda>n. Node_constructor (rawNode n) prefix) (nodes g)),
                  nodeEdgesObject =
                    indexOfEdges fmempty
                      (map (\<lambda>e. Edge_constructor (rawEdge e) prefix None None) (edges g))\<rparr>"
  have clone: "Graph_clone g (Some (''uf_'' @ numberToString (counter this) @ ''_'')) = Inr cl"
    using assms(1) by (simp add: Graph_clone_cases cl_def prefix_def)
  have ccl: "cloneable cl"
    using assms(1) by (auto simp: cloneable_iff cl_def Edge_constructor_def rawEdge_def)
  have acl: "attributed cl"
    using assms(2)
    by (auto simp: attributed_def cl_def list_all_iff Node_constructor_def rawNode_def destructured_def)
  from redirectInputs_return [of "(g, cl)" "indicesWhere (\<lambda>e. inputNodeId e = node_id node) (edges g)"]
    assms(1) ccl acl
  obtain gc1 where gc1: "reduceThrowing redirectInput
        (indicesWhere (\<lambda>e. inputNodeId e = node_id node) (edges g)) (g, cl) = Inr gc1"
    and c1: "cloneable (fst gc1)" "cloneable (snd gc1)"
    and n1: "nodes (fst gc1) = nodes g" "nodes (snd gc1) = nodes cl"
    by auto
  from acl n1(2) have a1: "attributed (snd gc1)" by (simp add: attributed_def)
  from redirectOutputs_return [OF c1 a1,
      of "indicesWhere (\<lambda>e. outputNodeId e = node_id node) (edges (fst gc1))"]
  obtain gc2 where gc2: "reduceThrowing redirectOutput
        (indicesWhere (\<lambda>e. outputNodeId e = node_id node) (edges (fst gc1))) gc1 = Inr gc2"
    and c2: "cloneable (fst gc2)" "cloneable (snd gc2)"
    and n2': "nodes (fst gc2) = nodes (fst gc1)" "nodes (snd gc2) = nodes (snd gc1)"
    by auto
  have n2: "nodes (fst gc2) = nodes g" "nodes (snd gc2) = nodes cl"
    using n1 n2' by simp_all
  define g' where "g' = addEdges
      (addNodes
         (deleteNodes (deleteEdges (fst gc2) (\<lambda>e index. ''toDelete'' \<in> set (actions e)))
            (\<lambda>n index. node_id n = node_id node))
         (nodes (deleteEdges (deleteNodes (snd gc2) (\<lambda>n index. take 3 (node_c n) = ''UF_''))
             (\<lambda>e index. ''toDelete'' \<in> set (actions e)
                  \<or> outputNodeId e \<in> set (map node_id (filter (\<lambda>n. take 3 (node_c n) = ''UF_'') (nodes (snd gc2))))
                  \<or> inputNodeId e \<in> set (map node_id (filter (\<lambda>n. take 3 (node_c n) = ''UF_'') (nodes (snd gc2))))))))
      (edges (deleteEdges (deleteNodes (snd gc2) (\<lambda>n index. take 3 (node_c n) = ''UF_''))
             (\<lambda>e index. ''toDelete'' \<in> set (actions e)
                  \<or> outputNodeId e \<in> set (map node_id (filter (\<lambda>n. take 3 (node_c n) = ''UF_'') (nodes (snd gc2))))
                  \<or> inputNodeId e \<in> set (map node_id (filter (\<lambda>n. take 3 (node_c n) = ''UF_'') (nodes (snd gc2)))))))"
  have ev: "evaluateUserFunctionNode this node g = Inr (this\<lparr>counter := counter this + 1\<rparr>, g')"
    using clone gc1 gc2
    by (simp add: evaluateUserFunctionNode_def Let_def generateNextID_def g'_def)
  have e1: "cloneable (deleteEdges (fst gc2) (\<lambda>e index. ''toDelete'' \<in> set (actions e)))"
    using c2 by (simp add: cloneable_deleteEdges)
  have "cloneable (deleteNodes (snd gc2) (\<lambda>n index. take 3 (node_c n) = ''UF_''))"
    using c2 by (simp add: cloneable_iff deleteNodes_def)
  then have e2: "cloneable (deleteEdges (deleteNodes (snd gc2) (\<lambda>n index. take 3 (node_c n) = ''UF_'')) f)" for f
    by (rule cloneable_deleteEdges)
  have cg: "cloneable g'"
    using e1 e2 unfolding g'_def
    by (auto simp: cloneable_iff addEdges_def addNodes_def deleteNodes_def)
  have ng: "nodes g' = filter (\<lambda>n. node_id n \<noteq> node_id node) (nodes g)
               @ filter (\<lambda>n. take 3 (node_c n) \<noteq> ''UF_'') (nodes cl)"
    by (simp add: g'_def addNodes_def addEdges_def deleteNodes_def deleteEdges_def
        filterIndexed_ignoring_index n2)
  have ag: "attributed g'"
    using assms(2) acl by (auto simp: attributed_def ng list_all_iff)
  from ev cg ag ng show ?thesis
    by (auto simp: cl_def prefix_def)
qed

text \<open>So a call node that is no marker comes back as its own copy after every pass, and
  the recursion of \<open>inlineUserFunctionsInGraph\<close> has no way to end.\<close>

lemma callRemains_evaluateUserFunctionNode:
  assumes "callRemains ids g" and "cloneable g" and "attributed g"
  shows "\<exists>this' g'. evaluateUserFunctionNode this node g = Inr (this', g')
           \<and> cloneable g' \<and> attributed g' \<and> callRemains ids g'"
proof -
  from evaluateUserFunctionNode_returns [OF assms(2,3), of this node] obtain g'
    where ev: "evaluateUserFunctionNode this node g = Inr (this\<lparr>counter := counter this + 1\<rparr>, g')"
      and cg: "cloneable g'" "attributed g'"
      and ng: "nodes g' = filter (\<lambda>n. node_id n \<noteq> node_id node) (nodes g)
               @ filter (\<lambda>n. take 3 (node_c n) \<noteq> ''UF_'')
                   (map (\<lambda>n. Node_constructor (rawNode n)
                                (Some (''uf_'' @ numberToString (counter this) @ ''_''))) (nodes g))"
    by blast
  from assms(1) obtain n where n: "n \<in> set (nodes g)" "node_c n \<in> set ids" "take 3 (node_c n) \<noteq> ''UF_''"
    by (auto simp: callRemains_def list_ex_iff)
  define n' where "n' = Node_constructor (rawNode n) (Some (''uf_'' @ numberToString (counter this) @ ''_''))"
  have c: "node_c n' = node_c n"
    by (simp add: n'_def Node_constructor_def rawNode_def)
  have "n' \<in> set (nodes g')"
    using n(1,3) c by (auto simp: ng n'_def)
  with c n(2,3) have "callRemains ids g'"
    unfolding callRemains_def list_ex_iff by (intro bexI [of _ n']) simp_all
  with ev cg show ?thesis by blast
qed

lemma callRemains_passes:
  "callRemains ids (snd tg) \<Longrightarrow> cloneable (snd tg) \<Longrightarrow> attributed (snd tg) \<Longrightarrow>
     \<exists>tg'. reduceThrowing (\<lambda>tg node. evaluateUserFunctionNode (fst tg) node (snd tg)) ns tg = Inr tg'
            \<and> cloneable (snd tg') \<and> attributed (snd tg') \<and> callRemains ids (snd tg')"
proof (induction ns arbitrary: tg)
  case Nil
  then show ?case by simp
next
  case (Cons n ns)
  from callRemains_evaluateUserFunctionNode [OF Cons.prems, of "fst tg" n] obtain this' g'
    where ev: "evaluateUserFunctionNode (fst tg) n (snd tg) = Inr (this', g')"
      and inv: "cloneable g'" "attributed g'" "callRemains ids g'"
    by blast
  from Cons.IH [of "(this', g')"] inv ev show ?case by simp
qed

lemma inlining_never_returns:
  assumes ret: "inlineUserFunctionsInGraph this garg rawIds = Some r"
    and "givenGraph this garg = Some g0"
    and "callRemains (userFunctionsIdsOf this rawIds) g0"
    and "cloneable g0 \<and> attributed g0"
  shows False
proof -
  have "\<forall>g0. givenGraph this garg = Some g0 \<longrightarrow> callRemains (userFunctionsIdsOf this rawIds) g0
          \<longrightarrow> cloneable g0 \<and> attributed g0 \<longrightarrow> False"
  proof (rule inlineUserFunctionsInGraph.raw_induct
      [where P = "\<lambda>this garg rawIds r. \<forall>g0. givenGraph this garg = Some g0
                    \<longrightarrow> callRemains (userFunctionsIdsOf this rawIds) g0
                    \<longrightarrow> cloneable g0 \<and> attributed g0 \<longrightarrow> False", OF _ ret],
      intro allI impI)
    fix rec this garg rawIds r g0
    assume IH: "\<And>this garg rawIds r. rec this garg rawIds = Some r \<Longrightarrow>
                  \<forall>g0. givenGraph this garg = Some g0
                    \<longrightarrow> callRemains (userFunctionsIdsOf this rawIds) g0
                    \<longrightarrow> cloneable g0 \<and> attributed g0 \<longrightarrow> False"
      and body: "(case case garg of None \<Rightarrow> graph this | Some g \<Rightarrow> Some g of
      None \<Rightarrow> Some (Inl TypeError)
      | Some g \<Rightarrow>
          let userFunctionsIds =
                (case rawIds of None \<Rightarrow> [] | Some ids \<Rightarrow> ids) @
                (case rawIds of
                 None \<Rightarrow>
                   map fst
                    (filter (\<lambda>entry. isUserFunction (snd entry))
                      (components (schema this)))
                 | Some ids \<Rightarrow> []);
              userFunctionsNodes =
                filter (\<lambda>n. node_c n \<in> set userFunctionsIds) (nodes g)
          in if length userFunctionsNodes \<le> 0
             then Some (Inr (graph this, this))
             else case reduceThrowing
                         (\<lambda>tg node.
                             evaluateUserFunctionNode (fst tg) node (snd tg))
                         userFunctionsNodes (this, g) of
                    Inl e \<Rightarrow> Some (Inl e)
                  | Inr tg \<Rightarrow>
                      let this' =
                            case garg of None \<Rightarrow> fst tg\<lparr>graph := Some (snd tg)\<rparr>
                            | Some v \<Rightarrow> fst tg;
                          garg' =
                            case garg of None \<Rightarrow> None | Some v \<Rightarrow> Some (snd tg);
                          updatedUserFunctionNodes =
                            filter (\<lambda>n. node_c n \<in> set userFunctionsIds)
                             (nodes (snd tg))
                      in if length updatedUserFunctionNodes = 0
                         then Some (Inr (Some (snd tg), this'))
                         else rec this' garg' (Some userFunctionsIds)) = Some r"
      and eff0: "givenGraph this garg = Some g0"
      and rem0: "callRemains (userFunctionsIdsOf this rawIds) g0"
      and ok0: "cloneable g0 \<and> attributed g0"
    define ids where "ids = userFunctionsIdsOf this rawIds"
    from callRemains_passes [of ids "(this, g0)" "filter (\<lambda>n. node_c n \<in> set ids) (nodes g0)"]
      rem0 ok0
    obtain tg where passes: "reduceThrowing (\<lambda>tg node. evaluateUserFunctionNode (fst tg) node (snd tg))
          (filter (\<lambda>n. node_c n \<in> set ids) (nodes g0)) (this, g0) = Inr tg"
      and ok1: "cloneable (snd tg) \<and> attributed (snd tg)" and rem1: "callRemains ids (snd tg)"
      by (auto simp: ids_def)
    define this' where "this' = (case garg of None \<Rightarrow> (fst tg)\<lparr>graph := Some (snd tg)\<rparr> | Some v \<Rightarrow> fst tg)"
    define garg' where "garg' = (case garg of None \<Rightarrow> None | Some v \<Rightarrow> Some (snd tg))"
    have nonempty: "filter (\<lambda>n. node_c n \<in> set ids) (nodes g0) \<noteq> []"
      using rem0 by (auto simp: callRemains_def list_ex_iff filter_empty_conv ids_def)
    have nonempty': "filter (\<lambda>n. node_c n \<in> set ids) (nodes (snd tg)) \<noteq> []"
      using rem1 by (auto simp: callRemains_def list_ex_iff filter_empty_conv)
    have call: "rec this' garg' (Some ids) = Some r"
      using body eff0 nonempty nonempty' passes
      by (simp add: givenGraph_def Let_def userFunctionsIdsOf_def [symmetric] ids_def [symmetric]
          this'_def garg'_def)
    have eff: "givenGraph this' garg' = Some (snd tg)"
      by (simp add: givenGraph_def garg'_def this'_def split: option.split)
    have "userFunctionsIdsOf this' (Some ids) = ids"
      by (simp add: userFunctionsIdsOf_def)
    with IH [OF call] eff rem1 ok1 show False by simp
  qed
  with assms(2,3,4) show False by blast
qed

lemma inlining_throws:
  assumes "givenGraph this garg = Some g0"
    and "callRemains (userFunctionsIdsOf this rawIds) g0"
    and "\<not> cloneable g0"
  shows "inlineUserFunctionsInGraph this garg rawIds = Some (Inl TypeError)"
proof -
  define ids where "ids = userFunctionsIdsOf this rawIds"
  from assms(2) obtain n ns where ns: "filter (\<lambda>n. node_c n \<in> set ids) (nodes g0) = n # ns"
    by (cases "filter (\<lambda>n. node_c n \<in> set ids) (nodes g0)")
      (auto simp: callRemains_def list_ex_iff filter_empty_conv ids_def)
  have "reduceThrowing (\<lambda>tg node. evaluateUserFunctionNode (fst tg) node (snd tg))
          (filter (\<lambda>n. node_c n \<in> set ids) (nodes g0)) (this, g0) = Inl TypeError"
    by (simp add: ns evaluateUserFunctionNode_throws [OF assms(3)])
  with assms(1) ns show ?thesis
    by (subst inlineUserFunctionsInGraph.simps)
      (simp add: givenGraph_def Let_def userFunctionsIdsOf_def [symmetric] ids_def [symmetric])
qed

lemma callRemains_host: "callRemains [''F''] hostGraph \<and> cloneable hostGraph \<and> attributed hostGraph"
  by (simp add: callRemains_def cloneable_def attributed_def hostGraph_def plainNode_def
      Edge_constructor_def inheritedNames_def)

text \<open>
  C2, where the code departs from it. Since every pass splices a copy of the host graph
  into itself, the copy of the call node is a call node again, and the re-scan finds it:
  on the host example with \<open>F\<close> flagged as a user function the recursion never ends. And
  when the graph that is passed holds no call, the method returns \<open>this.graph\<close>, which is
  the given graph only when none was passed: here the instance holds the empty graph, the
  graph passed has the node \<open>k\<close>, and the empty graph comes back.
\<close>

theorem inlining_does_not_converge:
  "Graph_constructor hostExample None = Inr hostGraph
   \<and> inlineUserFunctionsInGraph
       \<lparr>graph = Some hostGraph,
        schema = \<lparr>components = [(''F'', \<lparr>isUserFunction = True\<rparr>)]\<rparr>,
        userFunctionStorage = storage, counter = 0\<rparr> None None = None
   \<and> Graph_constructor emptyRawGraph None = Inr emptyGraph
   \<and> Graph_constructor oneNodeRaw None = Inr oneNodeGraph
   \<and> inlineUserFunctionsInGraph
       \<lparr>graph = Some emptyGraph,
        schema = \<lparr>components = [(''F'', \<lparr>isUserFunction = True\<rparr>)]\<rparr>,
        userFunctionStorage = storage, counter = 0\<rparr>
       (Some oneNodeGraph) None
     = Some (Inr (Some emptyGraph,
          \<lparr>graph = Some emptyGraph,
           schema = \<lparr>components = [(''F'', \<lparr>isUserFunction = True\<rparr>)]\<rparr>,
           userFunctionStorage = storage, counter = 0\<rparr>))
   \<and> oneNodeGraph \<noteq> emptyGraph"
proof (intro conjI)
  let ?this = "\<lparr>graph = Some hostGraph,
           schema = \<lparr>components = [(''F'', \<lparr>isUserFunction = True\<rparr>)]\<rparr>,
           userFunctionStorage = storage, counter = 0\<rparr>"
  show "inlineUserFunctionsInGraph ?this None None = None"
  proof (cases "inlineUserFunctionsInGraph ?this None None")
    case None
    then show ?thesis .
  next
    case (Some r)
    then have False
      by (rule inlining_never_returns [where ?g0.0 = hostGraph])
        (simp_all add: givenGraph_def userFunctionsIdsOf_def callRemains_host)
    then show ?thesis ..
  qed
next
  show "inlineUserFunctionsInGraph
       \<lparr>graph = Some emptyGraph,
        schema = \<lparr>components = [(''F'', \<lparr>isUserFunction = True\<rparr>)]\<rparr>,
        userFunctionStorage = storage, counter = 0\<rparr>
       (Some oneNodeGraph) None
     = Some (Inr (Some emptyGraph,
          \<lparr>graph = Some emptyGraph,
           schema = \<lparr>components = [(''F'', \<lparr>isUserFunction = True\<rparr>)]\<rparr>,
           userFunctionStorage = storage, counter = 0\<rparr>))"
    by (subst inlineUserFunctionsInGraph.simps) (simp add: oneNodeGraph_def plainNode_def)
next
  show "oneNodeGraph \<noteq> emptyGraph"
    by (simp add: oneNodeGraph_def emptyGraph_def)
qed (rule host_built empty_built oneNode_built)+

text \<open>
  X2. As long as the graph holds a node of a user-function type whose name does not start
  with \<open>UF_\<close>, \<open>inlineUserFunctionsInGraph\<close> does not return a graph. When no edge of the
  graph names an inherited name as its consumer and every node has an \<open>a\<close>, the recursion
  never ends; when an edge names an inherited name as its consumer, the first clone
  throws.
\<close>

theorem inlining_never_returns_while_call_remains:
  "givenGraph this garg = Some g \<and> callRemains (userFunctionsIdsOf this rawIds) g
     \<longrightarrow> (cloneable g \<and> attributed g \<longrightarrow> inlineUserFunctionsInGraph this garg rawIds = None)
         \<and> (\<not> cloneable g \<longrightarrow> inlineUserFunctionsInGraph this garg rawIds = Some (Inl TypeError))"
proof (intro impI conjI; elim conjE)
  assume a: "givenGraph this garg = Some g" "callRemains (userFunctionsIdsOf this rawIds) g"
    and "\<not> cloneable g"
  then show "inlineUserFunctionsInGraph this garg rawIds = Some (Inl TypeError)"
    by (rule inlining_throws)
next
  assume a: "givenGraph this garg = Some g" "callRemains (userFunctionsIdsOf this rawIds) g"
    and ok: "cloneable g" "attributed g"
  show "inlineUserFunctionsInGraph this garg rawIds = None"
  proof (cases "inlineUserFunctionsInGraph this garg rawIds")
    case None
    then show ?thesis .
  next
    case (Some r)
    then have False using a ok by (intro inlining_never_returns [of this garg rawIds r g]) simp_all
    then show ?thesis ..
  qed
qed

theorem inlining_never_returns_while_call_remains_witness:
  "givenGraph
      \<lparr>graph = Some hostGraph,
       schema = \<lparr>components = [(''F'', \<lparr>isUserFunction = True\<rparr>)]\<rparr>,
       userFunctionStorage = fmempty, counter = 0\<rparr> None
     = Some hostGraph
   \<and> callRemains
       (userFunctionsIdsOf
          \<lparr>graph = Some hostGraph,
           schema = \<lparr>components = [(''F'', \<lparr>isUserFunction = True\<rparr>)]\<rparr>,
           userFunctionStorage = fmempty, counter = 0\<rparr> None)
       hostGraph
   \<and> cloneable hostGraph \<and> attributed hostGraph
   \<and> inlineUserFunctionsInGraph
       \<lparr>graph = Some hostGraph,
        schema = \<lparr>components = [(''F'', \<lparr>isUserFunction = True\<rparr>)]\<rparr>,
        userFunctionStorage = fmempty, counter = 0\<rparr> None None = None
   \<and> givenGraph
      \<lparr>graph = Some (addEdges oneNodeGraph
                        [Edge_constructor (''toString'', ''in'', ''k'', ''out'') None None None]),
       schema = \<lparr>components = [(''Const'', \<lparr>isUserFunction = True\<rparr>)]\<rparr>,
       userFunctionStorage = fmempty, counter = 0\<rparr> None
     = Some (addEdges oneNodeGraph
               [Edge_constructor (''toString'', ''in'', ''k'', ''out'') None None None])
   \<and> callRemains
       (userFunctionsIdsOf
          \<lparr>graph = Some (addEdges oneNodeGraph
                            [Edge_constructor (''toString'', ''in'', ''k'', ''out'') None None None]),
           schema = \<lparr>components = [(''Const'', \<lparr>isUserFunction = True\<rparr>)]\<rparr>,
           userFunctionStorage = fmempty, counter = 0\<rparr> None)
       (addEdges oneNodeGraph
          [Edge_constructor (''toString'', ''in'', ''k'', ''out'') None None None])
   \<and> \<not> cloneable (addEdges oneNodeGraph
                      [Edge_constructor (''toString'', ''in'', ''k'', ''out'') None None None])
   \<and> inlineUserFunctionsInGraph
       \<lparr>graph = Some (addEdges oneNodeGraph
                         [Edge_constructor (''toString'', ''in'', ''k'', ''out'') None None None]),
        schema = \<lparr>components = [(''Const'', \<lparr>isUserFunction = True\<rparr>)]\<rparr>,
        userFunctionStorage = fmempty, counter = 0\<rparr> None None
     = Some (Inl TypeError)"
proof -
  define g where "g = addEdges oneNodeGraph
      [Edge_constructor (''toString'', ''in'', ''k'', ''out'') None None None]"
  define this where "this = \<lparr>graph = Some g,
                   schema = \<lparr>components = [(''Const'', \<lparr>isUserFunction = True\<rparr>)]\<rparr>,
                   userFunctionStorage = fmempty, counter = 0\<rparr>"
  have 1: "givenGraph this None = Some g" by (simp add: givenGraph_def this_def)
  have 2: "callRemains (userFunctionsIdsOf this None) g"
    by (simp add: callRemains_def userFunctionsIdsOf_def this_def g_def plainNode_def
        oneNodeGraph_def addEdges_def)
  have 3: "\<not> cloneable g"
    by (simp add: cloneable_def g_def Edge_constructor_def inheritedNames_def addEdges_def
        oneNodeGraph_def)
  from inlining_never_returns_while_call_remains [of this None g None] 1 2 3
  have 4: "inlineUserFunctionsInGraph this None None = Some (Inl TypeError)" by simp
  from inlining_never_returns_while_call_remains
      [of "\<lparr>graph = Some hostGraph,
            schema = \<lparr>components = [(''F'', \<lparr>isUserFunction = True\<rparr>)]\<rparr>,
            userFunctionStorage = fmempty, counter = 0\<rparr>" None hostGraph None]
      callRemains_host
  have 5: "givenGraph
      \<lparr>graph = Some hostGraph,
       schema = \<lparr>components = [(''F'', \<lparr>isUserFunction = True\<rparr>)]\<rparr>,
       userFunctionStorage = fmempty, counter = 0\<rparr> None
     = Some hostGraph
   \<and> callRemains
       (userFunctionsIdsOf
          \<lparr>graph = Some hostGraph,
           schema = \<lparr>components = [(''F'', \<lparr>isUserFunction = True\<rparr>)]\<rparr>,
           userFunctionStorage = fmempty, counter = 0\<rparr> None)
       hostGraph
   \<and> cloneable hostGraph \<and> attributed hostGraph
   \<and> inlineUserFunctionsInGraph
       \<lparr>graph = Some hostGraph,
        schema = \<lparr>components = [(''F'', \<lparr>isUserFunction = True\<rparr>)]\<rparr>,
        userFunctionStorage = fmempty, counter = 0\<rparr> None None = None"
    by (simp add: givenGraph_def userFunctionsIdsOf_def)
  from 1 2 3 4 5 show ?thesis
    unfolding g_def this_def by blast
qed

text \<open>
  X3. When the graph it works on holds no node of a user-function type,
  \<open>inlineUserFunctionsInGraph\<close> returns \<open>this.graph\<close> and leaves the instance as it was.
\<close>

theorem inlining_without_calls_returns_this_graph:
  "givenGraph this garg = Some g
   \<and> filter (\<lambda>n. node_c n \<in> set (userFunctionsIdsOf this rawIds)) (nodes g) = []
     \<longrightarrow> inlineUserFunctionsInGraph this garg rawIds = Some (Inr (graph this, this))"
  by (subst inlineUserFunctionsInGraph.simps)
    (simp add: givenGraph_def userFunctionsIdsOf_def Let_def)

theorem inlining_without_calls_returns_this_graph_witness:
  "givenGraph
      \<lparr>graph = Some emptyGraph,
       schema = \<lparr>components = [(''F'', \<lparr>isUserFunction = True\<rparr>)]\<rparr>,
       userFunctionStorage = fmempty, counter = 0\<rparr>
      (Some oneNodeGraph)
     = Some oneNodeGraph
   \<and> filter (\<lambda>n. node_c n \<in> set (userFunctionsIdsOf
          \<lparr>graph = Some emptyGraph,
           schema = \<lparr>components = [(''F'', \<lparr>isUserFunction = True\<rparr>)]\<rparr>,
           userFunctionStorage = fmempty, counter = 0\<rparr> None))
        (nodes oneNodeGraph) = []
   \<and> inlineUserFunctionsInGraph
       \<lparr>graph = Some emptyGraph,
        schema = \<lparr>components = [(''F'', \<lparr>isUserFunction = True\<rparr>)]\<rparr>,
        userFunctionStorage = fmempty, counter = 0\<rparr>
       (Some oneNodeGraph) None
     = Some (Inr (Some emptyGraph,
         \<lparr>graph = Some emptyGraph,
          schema = \<lparr>components = [(''F'', \<lparr>isUserFunction = True\<rparr>)]\<rparr>,
          userFunctionStorage = fmempty, counter = 0\<rparr>))"
proof -
  have f: "filter (\<lambda>n. node_c n \<in> set (userFunctionsIdsOf
          \<lparr>graph = Some emptyGraph,
           schema = \<lparr>components = [(''F'', \<lparr>isUserFunction = True\<rparr>)]\<rparr>,
           userFunctionStorage = fmempty, counter = 0\<rparr> None))
        (nodes oneNodeGraph) = []"
    by (simp add: userFunctionsIdsOf_def oneNodeGraph_def plainNode_def)
  from f inlining_without_calls_returns_this_graph
    [of "\<lparr>graph = Some emptyGraph,
          schema = \<lparr>components = [(''F'', \<lparr>isUserFunction = True\<rparr>)]\<rparr>,
          userFunctionStorage = fmempty, counter = 0\<rparr>"
        "Some oneNodeGraph" oneNodeGraph None]
  show ?thesis by (simp add: givenGraph_def)
qed

section \<open>Tree composition leaves the graph alone\<close>

text \<open>Every step of the composition either leaves the store alone or appends a clone and
  writes to that clone only.\<close>

lemma unchangedBy_refl: "unchangedBy s s"
  by (simp add: unchangedBy_def)

lemma unchangedBy_trans: "unchangedBy s s1 \<Longrightarrow> unchangedBy s1 s2 \<Longrightarrow> unchangedBy s s2"
  unfolding unchangedBy_def
  by (metis append_eq_conv_conj append_take_drop_id take_append length_take min.absorb2 nat_le_linear take_all take_take)

lemma unchangedBy_clone:
  "allocClone s cur = (p, s') \<Longrightarrow> unchangedBy s (setOut (setEdges s' p es) p out)"
  by (auto simp: unchangedBy_def allocClone_def setOut_def setEdges_def)

lemma unchangedBy_cloneAndAssign: "unchangedBy s (snd (cloneAndAssign s node es out))"
  by (auto simp: cloneAndAssign_def unchangedBy_refl split: option.split prod.split
      intro: unchangedBy_clone)

lemma composeS_frame:
  "unchangedBy s (snd (composeTreeS s node ps out))"
  "unchangedBy s (snd (composeEdgesS s ps es acc))"
proof (induction s node ps out and s ps es acc rule: composeTreeS_composeEdgesS.induct)
  case (1 s node rawParentsIds out)
  show ?case
  proof (cases "readId s node")
    case None
    then show ?thesis by (simp add: composeTreeS.simps unchangedBy_refl)
  next
    case (Some nid)
    show ?thesis
    proof (cases "list_ex (\<lambda>pid. pid = nid) rawParentsIds")
      case True
      then show ?thesis using Some by (simp add: composeTreeS.simps unchangedBy_refl)
    next
      case False
      show ?thesis
      proof (cases "propertyRead (g_nodeEdgesObject (this_graph s)) (keyOf nid)")
        case (Inherited name)
        then show ?thesis using Some False by (simp add: composeTreeS.simps unchangedBy_refl)
      next
        case (Own l)
        define r where "r = composeEdgesS s (union_lodash rawParentsIds [nid]) l fmempty"
        have fr: "unchangedBy s (snd r)"
          unfolding r_def using 1(1) [OF Some False Own] .
        obtain res s1 where r: "r = (res, s1)" by (cases r)
        show ?thesis
        proof (cases res)
          case (Inl e)
          with Some False Own fr r show ?thesis
            by (simp add: composeTreeS.simps [of s] r_def [symmetric])
        next
          case (Inr nodeEdges)
          have "unchangedBy s1 (snd (cloneAndAssign s1 node nodeEdges out))"
            by (rule unchangedBy_cloneAndAssign)
          with fr r have "unchangedBy s (snd (cloneAndAssign s1 node nodeEdges out))"
            by (auto intro: unchangedBy_trans)
          with Some False Own r Inr show ?thesis
            by (simp add: composeTreeS.simps [of s] r_def [symmetric])
        qed
      next
        case Undefined
        with Some False show ?thesis
          by (simp add: composeTreeS.simps [of s] unchangedBy_cloneAndAssign)
      qed
    qed
  qed
next
  case (2 s newParentsIds acc)
  then show ?case by (simp add: unchangedBy_refl)
next
  case (3 s newParentsIds edgeData rest acc)
  define r where "r = composeTreeS s (propertyRead (g_nodesObject (this_graph s)) (eo_outputNodeId edgeData))
             newParentsIds (Some (eo_out edgeData))"
  have fr: "unchangedBy s (snd r)"
    unfolding r_def using 3(1) .
  show ?case
  proof (cases r)
    case (Pair res s1)
    show ?thesis
    proof (cases res)
      case (Inl e)
      then show ?thesis using Pair fr by (simp add: r_def [symmetric])
    next
      case (Inr subtree)
      have "unchangedBy s1 (snd (composeEdgesS s1 newParentsIds rest (fmupd (eo_in edgeData) subtree acc)))"
        using 3(2) Pair Inr by (simp add: r_def)
      then show ?thesis using Pair Inr fr
        by (auto simp: r_def [symmetric] intro: unchangedBy_trans)
    qed
  qed
qed

lemma composeTreesLoop_frame: "unchangedBy s (snd (composeTreesLoop s roots))"
proof (induction roots arbitrary: s)
  case Nil
  then show ?case by (simp add: unchangedBy_refl)
next
  case (Cons rootNode rest)
  show ?case
  proof (cases "readId s (Own rootNode)")
    case None
    then show ?thesis by (simp add: unchangedBy_refl)
  next
    case (Some nid)
    obtain res s1 where r: "composeTreeWithRootNodeS s (keyOf nid) = (res, s1)"
      by (cases "composeTreeWithRootNodeS s (keyOf nid)")
    have fr: "unchangedBy s s1"
      using composeS_frame(1) [of s "propertyRead (g_nodesObject (this_graph s)) (keyOf nid)" "[]" None] r
      by (simp add: composeTreeWithRootNodeS_def)
    show ?thesis
    proof (cases res)
      case (Inl e)
      then show ?thesis using Some r fr by simp
    next
      case (Inr tree)
      have "unchangedBy s1 (snd (composeTreesLoop s1 rest))" by (rule Cons.IH)
      with fr have "unchangedBy s (snd (composeTreesLoop s1 rest))" by (rule unchangedBy_trans)
      then show ?thesis using Some r Inr by (auto split: prod.splits sum.splits)
    qed
  qed
qed

text \<open>
  C10. Composing a tree is a query. Whatever \<open>composeTreeWithRootNode\<close> and \<open>composeTrees\<close>
  return or throw, afterwards the \<open>Graph\<close> object has the \<open>nodes\<close>, \<open>edges\<close>, \<open>comments\<close>,
  \<open>nodesObject\<close> and \<open>nodeEdgesObject\<close> it had, and every \<open>Node\<close> object that existed before
  the call holds what it held, its \<open>edges\<close> and \<open>out\<close> included: the only objects written
  to are the clones the call allocated itself.
\<close>

theorem composeTree_is_a_pure_query:
  "unchangedBy s (snd (composeTreeWithRootNodeS s rootNodeId))
   \<and> unchangedBy s (snd (composeTreesS s))"
  by (simp add: composeTreeWithRootNodeS_def composeTreesS_def composeS_frame(1) composeTreesLoop_frame)

text \<open>On the store that holds the three-node graph, composing from \<open>root\<close> allocates three
  clones behind the three nodes and returns the last one; the three nodes are as before.\<close>

theorem composeTree_is_a_pure_query_witness:
  "unchangedBy exampleStore (snd (composeTreeWithRootNodeS exampleStore ''root''))
   \<and> unchangedBy exampleStore (snd (composeTreesS exampleStore))
   \<and> composeTreeWithRootNodeS exampleStore ''root''
     = (Inr 5, exampleStore\<lparr>objects := objects exampleStore
          @ [NodeObject ''p1'' (Some fmempty) (Some fmempty) ''Const'' (Some fmempty) None None (Some ''out''),
             NodeObject ''p2'' (Some fmempty) (Some fmempty) ''Const'' (Some fmempty) None None (Some ''out''),
             NodeObject ''root'' (Some fmempty) (Some fmempty) ''Add''
               (Some (fmupd ''y'' 4 (fmupd ''x'' 3 fmempty))) None None None]\<rparr>)
   \<and> fst (composeTreesS exampleStore) = Inr [3, 4]"
proof -
  have "composeTreeWithRootNodeS exampleStore ''root''
     = (Inr 5, exampleStore\<lparr>objects := objects exampleStore
          @ [NodeObject ''p1'' (Some fmempty) (Some fmempty) ''Const'' (Some fmempty) None None (Some ''out''),
             NodeObject ''p2'' (Some fmempty) (Some fmempty) ''Const'' (Some fmempty) None None (Some ''out''),
             NodeObject ''root'' (Some fmempty) (Some fmempty) ''Add''
               (Some (fmupd ''y'' 4 (fmupd ''x'' 3 fmempty))) None None None]\<rparr>)"
    by (simp add: composeTreeWithRootNodeS_def exampleStore_def plainObject_def composeTreeS.simps
        readId_def cloned_def objectId_def assignEdges_def assignOut_def cloneAndAssign_def
        keyOf_def propertyRead_def inheritedNames_def
        allocClone_def setEdges_def setOut_def union_lodash_def eval_nat_numeral)
  moreover have "fst (composeTreesS exampleStore) = Inr [3, 4]"
    by (simp add: composeTreesS_def getRootNodesS_def composeTreeWithRootNodeS_def exampleStore_def
        plainObject_def composeTreeS.simps
        readId_def cloned_def objectId_def assignEdges_def assignOut_def cloneAndAssign_def
        keyOf_def propertyRead_def inheritedNames_def
        allocClone_def setEdges_def setOut_def
        union_lodash_def Edge_constructor_def withPrefix_def eval_nat_numeral)
  ultimately show ?thesis
    using composeTree_is_a_pure_query [of exampleStore "''root''"] by simp
qed

section \<open>The two models of tree composition agree\<close>

text \<open>Objects that exist keep what they hold, and keep representing what they represent,
  while the store only grows.\<close>

lemma unchangedBy_nth:
  assumes "unchangedBy s s'" and "r < length (objects s)"
  shows "r < length (objects s') \<and> objects s' ! r = objects s ! r"
proof -
  have len: "length (objects s) \<le> length (objects s')"
    using assms(1) unfolding unchangedBy_def
    by (metis length_take min.cobounded1 min.commute)
  have "objects s' ! r = take (length (objects s)) (objects s') ! r"
    using assms(2) by simp
  also have "\<dots> = objects s ! r"
    using assms(1) by (simp add: unchangedBy_def)
  finally show ?thesis using len assms(2) by simp
qed

lemma represents_mono:
  assumes "unchangedBy s s'" and "represents s r n"
  shows "represents s' r n"
  using assms(2)
proof (induction rule: represents.induct)
  case (1 r i a t c es x y out es')
  have rel: "fmrel (represents s') es es'"
    using 1(3) by (rule fmap.rel_mono_strong) simp
  from unchangedBy_nth [OF assms(1) 1(1)] 1(2) rel show ?case
    by (intro represents.intros(1)) auto
next
  case (2 r es out es')
  have rel: "fmrel (represents s') es es'"
    using 2(3) by (rule fmap.rel_mono_strong) simp
  from unchangedBy_nth [OF assms(1) 2(1)] 2(2) rel show ?case
    by (intro represents.intros(2)) auto
qed

lemma fmrel_represents_mono:
  assumes "unchangedBy s s'" and "fmrel (represents s) m m'"
  shows "fmrel (represents s') m m'"
  using assms(2) by (rule fmap.rel_mono_strong) (rule represents_mono [OF assms(1)])

lemma holds_mono:
  assumes "unchangedBy s s'" and "holds s r n"
  shows "holds s' r n"
  using assms(2) unchangedBy_nth [OF assms(1), of r] by (simp add: holds_def)

lemma implements_mono:
  assumes "unchangedBy s s'" and "implements s g"
  shows "implements s' g"
proof -
  have "this_graph s' = this_graph s" using assms(1) by (simp add: unchangedBy_def)
  moreover have "fmrel (holds s') (g_nodesObject (this_graph s)) (nodesObject g)"
    using assms(2) unfolding implements_def
    by (auto elim!: fmap.rel_mono_strong intro: holds_mono [OF assms(1)])
  ultimately show ?thesis using assms(2) by (simp add: implements_def)
qed

lemma propertyRead_rel:
  assumes "fmrel R m m'"
  shows "rel_lookup R (propertyRead m k) (propertyRead m' k)"
proof -
  from assms have "rel_option R (fmlookup m k) (fmlookup m' k)" by (rule fmrelD)
  then show ?thesis
    by (cases "fmlookup m k"; cases "fmlookup m' k") (simp_all add: propertyRead_def)
qed

lemma readId_rel:
  assumes "rel_lookup (holds s) node nodeV"
  shows "readId s node = (if nodeV = Undefined then None else Some (idOf nodeV))"
  using assms
  by (cases node; cases nodeV)
    (auto simp: readId_def idOf_def holds_def objectId_def split: Object.splits)

lemma cloneAndAssign_refines:
  assumes "rel_lookup (holds s) node nodeV" and "nodeV \<noteq> Undefined"
    and "fmrel (represents s) m m'"
  shows "sameTree (cloneAndAssign s node m out) (Inr (cloneWith nodeV m' out))"
proof -
  define s3 where "s3 = snd (cloneAndAssign s node m out)"
  have fr: "unchangedBy s s3"
    unfolding s3_def by (rule unchangedBy_cloneAndAssign)
  then have rel: "fmrel (represents s3) m m'"
    using assms(3) by (rule fmrel_represents_mono)
  show ?thesis
  proof (cases node)
    case Undefined
    with assms(1,2) show ?thesis by (cases nodeV) simp_all
  next
    case (Inherited name)
    with assms(1) have nodeV: "nodeV = Inherited name" by (cases nodeV) simp_all
    have res: "cloneAndAssign s node m out = (Inr (length (objects s)), s3)"
      unfolding s3_def
      by (simp add: cloneAndAssign_def cloned_def Inherited allocClone_def)
    have cell: "objects s3 ! length (objects s) = PlainObject (Present m) (Present out)"
      unfolding s3_def
      by (simp add: cloneAndAssign_def cloned_def Inherited allocClone_def setEdges_def setOut_def
          assignEdges_def assignOut_def)
    have "length (objects s) < length (objects s3)"
      unfolding s3_def
      by (simp add: cloneAndAssign_def cloned_def Inherited allocClone_def setEdges_def setOut_def)
    then have "represents s3 (length (objects s)) (Bare m' out)"
      using cell rel by (rule represents.intros(2))
    then show ?thesis
      by (simp add: res sameTree_def nodeV cloneWith_def)
  next
    case (Own r)
    with assms(1) obtain n where nodeV: "nodeV = Own n" and h: "holds s r n"
      by (cases nodeV) simp_all
    from h obtain es oldOut where r: "r < length (objects s)"
      and obj: "objects s ! r = NodeObject (node_id n) (node_a n) (node_t n) (node_c n) es
                                  (node_x n) (node_y n) oldOut"
      by (auto simp: holds_def split: Object.splits)
    have res: "cloneAndAssign s node m out = (Inr (length (objects s)), s3)"
      unfolding s3_def
      using r by (simp add: cloneAndAssign_def cloned_def Own allocClone_def)
    have cell: "objects s3 ! length (objects s)
        = NodeObject (node_id n) (node_a n) (node_t n) (node_c n) (Some m) (node_x n) (node_y n) out"
      unfolding s3_def
      using r obj
      by (simp add: cloneAndAssign_def cloned_def Own allocClone_def setEdges_def setOut_def
          assignEdges_def assignOut_def)
    have "length (objects s) < length (objects s3)"
      unfolding s3_def
      using r by (simp add: cloneAndAssign_def cloned_def Own allocClone_def setEdges_def setOut_def)
    then have "represents s3 (length (objects s))
        (Copy (node_id n) (node_a n) (node_t n) (node_c n) m' (node_x n) (node_y n) out)"
      using cell rel by (rule represents.intros(1))
    then show ?thesis
      by (simp add: res sameTree_def nodeV cloneWith_def)
  qed
qed

lemma composeS_refines:
  "implements s g \<Longrightarrow> rel_lookup (holds s) node nodeV \<Longrightarrow>
     sameTree (composeTreeS s node ps out) (composeTree g nodeV ps out)"
  "implements s g \<Longrightarrow> fmrel (represents s) acc accV \<Longrightarrow>
     sameEdges (composeEdgesS s ps es acc) (composeEdges g ps es accV)"
proof (induction s node ps out and s ps es acc arbitrary: nodeV and accV
    rule: composeTreeS_composeEdgesS.induct)
  case (1 s node rawParentsIds out)
  note impl = 1(3) and rel = 1(4)
  have idx: "g_nodeEdgesObject (this_graph s) = nodeEdgesObject g"
    using impl by (simp add: implements_def)
  show ?case
  proof (cases "nodeV = Undefined")
    case True
    with readId_rel [OF rel] show ?thesis
      by (simp add: composeTreeS.simps [of s] composeTree.simps [of g] sameTree_def)
  next
    case defined: False
    with readId_rel [OF rel] have rid: "readId s node = Some (idOf nodeV)" by simp
    show ?thesis
    proof (cases "list_ex (\<lambda>pid. pid = idOf nodeV) rawParentsIds")
      case True
      with defined rid show ?thesis
        by (simp add: composeTreeS.simps [of s] composeTree.simps [of g] sameTree_def)
    next
      case False
      show ?thesis
      proof (cases "propertyRead (nodeEdgesObject g) (keyOf (idOf nodeV))")
        case (Inherited name)
        with defined rid False idx show ?thesis
          by (simp add: composeTreeS.simps [of s] composeTree.simps [of g] sameTree_def Let_def)
      next
        case Undefined
        have "sameTree (cloneAndAssign s node fmempty out) (Inr (cloneWith nodeV fmempty out))"
          using rel defined by (rule cloneAndAssign_refines) (rule fmempty_transfer)
        with defined rid False idx Undefined show ?thesis
          by (simp add: composeTreeS.simps [of s] composeTree.simps [of g] Let_def)
      next
        case (Own l)
        define R where "R = composeEdgesS s (union_lodash rawParentsIds [idOf nodeV]) l fmempty"
        define RV where "RV = composeEdges g (union_lodash rawParentsIds [idOf nodeV]) l fmempty"
        have own: "propertyRead (g_nodeEdgesObject (this_graph s)) (keyOf (idOf nodeV)) = Own l"
          using Own idx by simp
        have same: "sameEdges R RV"
          unfolding R_def RV_def
          by (rule 1(1) [OF rid False own impl]) (rule fmempty_transfer)
        have fr: "unchangedBy s (snd R)"
          unfolding R_def by (rule composeS_frame(2))
        have heap: "composeTreeS s node rawParentsIds out =
            (case R of
               (Inl e, s1) \<Rightarrow> (Inl e, s1)
             | (Inr nodeEdges, s1) \<Rightarrow> cloneAndAssign s1 node nodeEdges out)"
          using rid False own by (simp add: composeTreeS.simps [of s] R_def)
        have pure: "composeTree g nodeV rawParentsIds out =
            (case RV of Inl e \<Rightarrow> Inl e | Inr nodeEdges \<Rightarrow> Inr (cloneWith nodeV nodeEdges out))"
          using defined False Own by (simp add: composeTree.simps [of g] RV_def Let_def)
        obtain res s1 where R: "R = (res, s1)" by (cases R)
        show ?thesis
        proof (cases res)
          case (Inl e)
          with same R have "RV = Inl e" by (simp add: sameEdges_def)
          with Inl R show ?thesis by (simp add: heap pure sameTree_def)
        next
          case (Inr m)
          with same R obtain m' where RV: "RV = Inr m'" and mrel: "fmrel (represents s1) m m'"
            by (cases RV) (auto simp: sameEdges_def)
          have fr1: "unchangedBy s s1" using fr R by simp
          have "rel_lookup (holds s1) node nodeV"
            using rel by (rule lookup.rel_mono_strong) (rule holds_mono [OF fr1])
          then have "sameTree (cloneAndAssign s1 node m out) (Inr (cloneWith nodeV m' out))"
            using defined mrel by (rule cloneAndAssign_refines)
          with R Inr RV show ?thesis by (simp add: heap pure)
        qed
      qed
    qed
  qed
next
  case (2 s newParentsIds acc)
  then show ?case by (simp add: sameEdges_def)
next
  case (3 s newParentsIds edgeData rest acc)
  define T where "T = composeTreeS s (propertyRead (g_nodesObject (this_graph s)) (eo_outputNodeId edgeData))
             newParentsIds (Some (eo_out edgeData))"
  define TV where "TV = composeTree g (propertyRead (nodesObject g) (eo_outputNodeId edgeData))
             newParentsIds (Some (eo_out edgeData))"
  have look: "rel_lookup (holds s)
      (propertyRead (g_nodesObject (this_graph s)) (eo_outputNodeId edgeData))
      (propertyRead (nodesObject g) (eo_outputNodeId edgeData))"
    using 3(3) by (auto simp: implements_def intro: propertyRead_rel)
  have rel: "sameTree T TV"
    unfolding T_def TV_def by (rule 3(1) [OF 3(3) look])
  have fr: "unchangedBy s (snd T)"
    unfolding T_def by (rule composeS_frame(1))
  have pure: "composeEdges g newParentsIds (edgeData # rest) accV =
      (case TV of Inl e \<Rightarrow> Inl e
       | Inr sub \<Rightarrow> composeEdges g newParentsIds rest (fmupd (eo_in edgeData) sub accV))"
    unfolding TV_def by simp
  obtain res s1 where T: "T = (res, s1)" by (cases T)
  show ?case
  proof (cases res)
    case (Inl e)
    with rel T have "TV = Inl e" by (simp add: sameTree_def)
    with Inl T show ?thesis
      by (simp add: pure T_def [symmetric] sameEdges_def del: composeEdges.simps)
  next
    case (Inr sub)
    with rel T obtain sub' where TV: "TV = Inr sub'" and rep: "represents s1 sub sub'"
      by (cases TV) (auto simp: sameTree_def)
    have fr1: "unchangedBy s s1" using fr T by simp
    have impl1: "implements s1 g" using fr1 3(3) by (rule implements_mono)
    have "fmrel (represents s1) acc accV" using fr1 3(4) by (rule fmrel_represents_mono)
    then have accs: "fmrel (represents s1) (fmupd (eo_in edgeData) sub acc) (fmupd (eo_in edgeData) sub' accV)"
      using rep by (rule fmrel_upd)
    have "sameEdges (composeEdgesS s1 newParentsIds rest (fmupd (eo_in edgeData) sub acc))
            (composeEdges g newParentsIds rest (fmupd (eo_in edgeData) sub' accV))"
      using T Inr by (intro 3(2) [OF _ _ impl1 accs]) (simp_all add: T_def)
    then show ?thesis
      using T Inr by (simp add: pure TV T_def [symmetric] del: composeEdges.simps)
  qed
qed

text \<open>
  X4. On a store that implements a graph value, \<open>composeTreeWithRootNode\<close> on object
  references and on values have the same outcome: the same error, or a reference to an
  object that represents the composed tree value.
\<close>

theorem store_model_refines_value_model:
  "implements s g \<longrightarrow> sameTree (composeTreeWithRootNodeS s rootNodeId) (composeTreeWithRootNode g rootNodeId)"
proof
  assume impl: "implements s g"
  have "rel_lookup (holds s) (propertyRead (g_nodesObject (this_graph s)) rootNodeId)
          (propertyRead (nodesObject g) rootNodeId)"
    using impl by (auto simp: implements_def intro: propertyRead_rel)
  with impl show "sameTree (composeTreeWithRootNodeS s rootNodeId) (composeTreeWithRootNode g rootNodeId)"
    unfolding composeTreeWithRootNodeS_def composeTreeWithRootNode_def
    by (rule composeS_refines(1))
qed

lemma holds_plain:
  "r < length (objects s) \<Longrightarrow> objects s ! r = plainObject i c \<Longrightarrow> holds s r (plainNode i c)"
  by (simp add: holds_def plainObject_def plainNode_def)

lemma implements_exampleStore:
  "Graph_constructor acyclicExample None = Inr g \<Longrightarrow> implements exampleStore g"
proof -
  assume g: "Graph_constructor acyclicExample None = Inr g"
  have "fmrel (holds exampleStore)
          (fmupd ''p2'' 2 (fmupd ''p1'' 1 (fmupd ''root'' 0 fmempty)))
          (fmupd ''p2'' (plainNode ''p2'' ''Const'')
             (fmupd ''p1'' (plainNode ''p1'' ''Const'')
                (fmupd ''root'' (plainNode ''root'' ''Add'') fmempty)))"
    by (intro fmrel_upd fmempty_transfer holds_plain) (simp_all add: exampleStore_def)
  with g show ?thesis
    by (auto simp: implements_def exampleStore_def acyclicExample_def threeNodeGraph_def
        plainRawNode_def plainNode_def graph_eval)
qed

theorem store_model_refines_value_model_witness:
  "(case Graph_constructor acyclicExample None of
      Inl e \<Rightarrow> False
    | Inr g \<Rightarrow>
        implements exampleStore g
        \<and> sameTree (composeTreeWithRootNodeS exampleStore ''root'') (composeTreeWithRootNode g ''root''))"
proof (cases "Graph_constructor acyclicExample None")
  case (Inl e)
  then show ?thesis
    by (simp add: Graph_constructor_cases inheritedConsumer_def acyclicExample_def
        threeNodeGraph_def inheritedNames_def)
next
  case (Inr g)
  from store_model_refines_value_model [of exampleStore g "''root''"]
    implements_exampleStore [OF Inr] Inr
  show ?thesis by simp
qed

end
